theory Spec2Isabelle
  imports Main "HOL-Library.Word"
begin

section \<open>The transaction and snapshot oracle\<close>

text \<open>
  \<^verbatim>\<open>gstore_fdw.c\<close> decides visibility with PostgreSQL's transaction manager. Transaction
  ids, command ids, object ids and CRC values are unsigned 32-bit integers. The three
  special transaction ids and the two tests on them are the macros of PostgreSQL's
  \<^verbatim>\<open>access/transam.h\<close>: \<^verbatim>\<open>InvalidTransactionId\<close> is 0, \<^verbatim>\<open>FrozenTransactionId\<close> is 2 and
  the first normal id is 3.
\<close>

type_synonym TransactionId = "32 word"
type_synonym CommandId = "32 word"
type_synonym Oid = "32 word"
type_synonym pg_crc32 = "32 word"

definition InvalidTransactionId :: TransactionId where
  "InvalidTransactionId = 0"

definition FrozenTransactionId :: TransactionId where
  "FrozenTransactionId = 2"

definition FirstNormalTransactionId :: TransactionId where
  "FirstNormalTransactionId = 3"

definition TransactionIdIsValid :: "TransactionId \<Rightarrow> bool" where
  "TransactionIdIsValid xid = (xid \<noteq> InvalidTransactionId)"

definition TransactionIdIsNormal :: "TransactionId \<Rightarrow> bool" where
  "TransactionIdIsNormal xid = (FirstNormalTransactionId \<le> xid)"

text \<open>
  A snapshot carries the command id of the running command; \<open>xip\<close> is the answer
  of \<^verbatim>\<open>XidInMVCCSnapshot(xid, snapshot)\<close>: the transaction is still in flight as far as
  the snapshot is concerned.
\<close>

record Snapshot =
  curcid :: CommandId
  xip :: "TransactionId \<Rightarrow> bool"

definition XidInMVCCSnapshot :: "TransactionId \<Rightarrow> Snapshot \<Rightarrow> bool" where
  "XidInMVCCSnapshot xid snapshot = xip snapshot xid"

text \<open>
  Everything else the code asks of the backend it runs in is a field of \<open>backend\<close>:
  the functions of the transaction manager, the ids of the running transaction and
  command, the database the backend is connected to, and the legacy CRC32 of a
  (database, table) pair (\<^verbatim>\<open>INIT_LEGACY_CRC32\<close>, two \<^verbatim>\<open>COMP_LEGACY_CRC32\<close>,
  \<^verbatim>\<open>FIN_LEGACY_CRC32\<close>).
\<close>

record backend =
  TransactionIdIsCurrentTransactionId :: "TransactionId \<Rightarrow> bool"
  TransactionIdDidCommit :: "TransactionId \<Rightarrow> bool"
  TransactionIdPrecedes :: "TransactionId \<Rightarrow> TransactionId \<Rightarrow> bool"
  GetCurrentTransactionId :: TransactionId
  GetCurrentCommandId :: CommandId
  MyDatabaseId :: Oid
  legacy_crc32 :: "Oid \<Rightarrow> Oid \<Rightarrow> pg_crc32"

section \<open>Chunk descriptors\<close>

text \<open>
  \<^verbatim>\<open>struct GpuStoreChunk\<close>. The list node \<^verbatim>\<open>chain\<close> is not a field here: which list a
  descriptor is linked into is told by the lists of the head below. The IPC memory
  handle is an opaque value.
\<close>

record GpuStoreChunk =
  hash :: pg_crc32
  database_oid :: Oid
  table_oid :: Oid
  xmax :: TransactionId
  xmin :: TransactionId
  cid :: CommandId
  xmax_commited :: bool
  xmin_commited :: bool
  kds_nitems :: "32 word"
  kds_length :: "32 word"
  cuda_dindex :: int
  ipc_mhandle :: nat
  dsm_handle :: "32 word"

section \<open>The visibility predicate\<close>

text \<open>
  \<^verbatim>\<open>gstore_fdw_satisfies_visibility\<close> returns its verdict and the descriptor with the
  hint fields it has written. \<open>satisfies_visibility_xmax\<close> is the second half of the C
  function, from the comment "by here, the inserting transaction has committed" on;
  both branches of the first half fall through to it.
\<close>

definition satisfies_visibility_xmax ::
  "backend \<Rightarrow> GpuStoreChunk \<Rightarrow> Snapshot \<Rightarrow> bool \<times> GpuStoreChunk" where
  "satisfies_visibility_xmax be gs_chunk snapshot =
    (if \<not> TransactionIdIsValid (xmax gs_chunk) then (True, gs_chunk)
     else if \<not> xmax_commited gs_chunk then
       (if TransactionIdIsCurrentTransactionId be (xmax gs_chunk) then
          (if curcid snapshot \<le> cid gs_chunk then (True, gs_chunk) else (False, gs_chunk))
        else if XidInMVCCSnapshot (xmax gs_chunk) snapshot then (True, gs_chunk)
        else if \<not> TransactionIdDidCommit be (xmax gs_chunk) then
          (True, gs_chunk\<lparr>xmax := InvalidTransactionId\<rparr>)
        else (False, gs_chunk\<lparr>xmax_commited := True\<rparr>))
     else
       (if XidInMVCCSnapshot (xmax gs_chunk) snapshot then (True, gs_chunk)
        else (False, gs_chunk)))"

definition gstore_fdw_satisfies_visibility ::
  "backend \<Rightarrow> GpuStoreChunk \<Rightarrow> Snapshot \<Rightarrow> bool \<times> GpuStoreChunk" where
  "gstore_fdw_satisfies_visibility be gs_chunk snapshot =
    (if \<not> xmin_commited gs_chunk then
       (if \<not> TransactionIdIsValid (xmin gs_chunk) then (False, gs_chunk)
        else if TransactionIdIsCurrentTransactionId be (xmin gs_chunk) then
          (if curcid snapshot \<le> cid gs_chunk then (False, gs_chunk)
           else if xmax gs_chunk = InvalidTransactionId then (True, gs_chunk)
           else if \<not> TransactionIdIsCurrentTransactionId be (xmax gs_chunk) then
             (True, gs_chunk\<lparr>xmax := InvalidTransactionId\<rparr>)
           else if curcid snapshot \<le> cid gs_chunk then (True, gs_chunk)
           else (False, gs_chunk))
        else if XidInMVCCSnapshot (xmin gs_chunk) snapshot then (False, gs_chunk)
        else if TransactionIdDidCommit be (xmin gs_chunk) then
          satisfies_visibility_xmax be (gs_chunk\<lparr>xmin_commited := True\<rparr>) snapshot
        else (False, gs_chunk\<lparr>xmin := InvalidTransactionId\<rparr>))
     else
       (if xmin gs_chunk \<noteq> FrozenTransactionId \<and> XidInMVCCSnapshot (xmin gs_chunk) snapshot
        then (False, gs_chunk)
        else satisfies_visibility_xmax be gs_chunk snapshot))"

text \<open>
  The inserting transaction counts as committed for a snapshot when the C function
  gets past its first half: the flag is set and the snapshot does not see the
  transaction in flight (a frozen id is never in flight), or the flag is not set, the
  transaction is not the caller's, not in flight, and the transaction log says it
  committed.
\<close>

definition xmin_established :: "backend \<Rightarrow> GpuStoreChunk \<Rightarrow> Snapshot \<Rightarrow> bool" where
  "xmin_established be gs_chunk snapshot =
    (if xmin_commited gs_chunk
     then xmin gs_chunk = FrozenTransactionId \<or> \<not> XidInMVCCSnapshot (xmin gs_chunk) snapshot
     else TransactionIdIsValid (xmin gs_chunk)
        \<and> \<not> TransactionIdIsCurrentTransactionId be (xmin gs_chunk)
        \<and> \<not> XidInMVCCSnapshot (xmin gs_chunk) snapshot
        \<and> TransactionIdDidCommit be (xmin gs_chunk))"

section \<open>The chunk store\<close>

text \<open>
  What the operations raise. \<^verbatim>\<open>elog(ERROR, "Bug? multiple GpuStoreChunks are visible")\<close>
  is \<open>ConsistencyViolation\<close>; the two \<^verbatim>\<open>ereport\<close> calls carry the error codes
  \<^verbatim>\<open>ERRCODE_FEATURE_NOT_SUPPORTED\<close> and \<^verbatim>\<open>ERRCODE_INSUFFICIENT_RESOURCES\<close>; a failed
  CUDA call is \<open>DeviceOperationFailed\<close> with the name of the call. A failed
  \<^verbatim>\<open>Assert\<close> and the use of a null pointer are errors of the model too, so that the
  paths the C code leaves unguarded are visible.
\<close>

datatype error =
    ConsistencyViolation
  | FeatureNotSupported
  | InsufficientResources
  | DeviceOperationFailed string
  | AssertionFailed
  | NullPointerDereference

definition GSTORE_CHUNK_HASH_NSLOTS :: nat where
  "GSTORE_CHUNK_HASH_NSLOTS = 97"

text \<open>
  \<^verbatim>\<open>GpuStoreHead\<close> with what the operations touch beside it. Descriptors are named by
  their index in \<^verbatim>\<open>gs_chunks\<close>; a \<^verbatim>\<open>dlist\<close> is the list of the indices linked into
  it, head first. \<open>gstore_maps\<close> is the backend's array of local mappings (the handle
  of the attached segment, or nothing). The device is seen through three
  quantities: the preserved device memory that is allocated (device index and IPC
  handle), the IPC handles the backend has opened and not closed, and the depth of
  the stack of current CUDA contexts.
\<close>

record gstore =
  has_warm_chunks :: "32 word"
  free_chunks :: "nat list"
  active_chunks :: "nat \<Rightarrow> nat list"
  gs_chunks :: "nat \<Rightarrow> GpuStoreChunk"
  gstore_maps :: "nat \<Rightarrow> 32 word option"
  preserved :: "(int \<times> nat) list"
  ipc_opened :: "nat list"
  cuda_ctx_depth :: nat

subsection \<open>Lookup\<close>

text \<open>
  The \<^verbatim>\<open>dlist_foreach\<close> of \<^verbatim>\<open>gstore_fdw_lookup_chunk_nolock\<close> over the rest of a bucket;
  \<open>found\<close> is the C variable \<^verbatim>\<open>gs_chunk\<close>. The \<^verbatim>\<open>&&\<close> chain calls the visibility predicate
  only on a descriptor of the table, and the predicate's writes stay in the store
  also when the scan ends in the error.
\<close>

fun lookup_scan ::
  "backend \<Rightarrow> Snapshot \<Rightarrow> pg_crc32 \<Rightarrow> Oid \<Rightarrow> nat list \<Rightarrow> nat option \<Rightarrow> gstore
    \<Rightarrow> gstore \<times> (error + nat option)" where
  "lookup_scan be snapshot h gstore_oid [] found st = (st, Inr found)"
| "lookup_scan be snapshot h gstore_oid (i # rest) found st =
    (let gs_temp = gs_chunks st i in
     if hash gs_temp = h \<and> database_oid gs_temp = MyDatabaseId be
        \<and> table_oid gs_temp = gstore_oid
     then
       (case gstore_fdw_satisfies_visibility be gs_temp snapshot of
          (visible, gs_temp') \<Rightarrow>
            let st' = st\<lparr>gs_chunks := (gs_chunks st)(i := gs_temp')\<rparr> in
            if visible then
              (case found of
                 None \<Rightarrow> lookup_scan be snapshot h gstore_oid rest (Some i) st'
               | Some _ \<Rightarrow> (st', Inl ConsistencyViolation))
            else lookup_scan be snapshot h gstore_oid rest found st')
     else lookup_scan be snapshot h gstore_oid rest found st)"

definition gstore_fdw_lookup_chunk_nolock ::
  "backend \<Rightarrow> Oid \<Rightarrow> Snapshot \<Rightarrow> gstore \<Rightarrow> gstore \<times> (error + nat option)" where
  "gstore_fdw_lookup_chunk_nolock be gstore_oid snapshot st =
    (let h = legacy_crc32 be (MyDatabaseId be) gstore_oid;
         index = unat h mod GSTORE_CHUNK_HASH_NSLOTS
     in lookup_scan be snapshot h gstore_oid (active_chunks st index) None st)"

text \<open>\<^verbatim>\<open>gstore_fdw_lookup_chunk\<close> adds the release of the spinlock on both ways out.\<close>

definition gstore_fdw_lookup_chunk ::
  "backend \<Rightarrow> Oid \<Rightarrow> Snapshot \<Rightarrow> gstore \<Rightarrow> gstore \<times> (error + nat option)" where
  "gstore_fdw_lookup_chunk be gstore_oid snapshot st =
    gstore_fdw_lookup_chunk_nolock be gstore_oid snapshot st"

text \<open>
  The descriptors a lookup is about: \<open>visible_for\<close> holds of a descriptor of the
  table (same CRC, database and table) that passes the visibility predicate, and
  \<open>visible_chunks\<close> lists the descriptors of the table's bucket it holds of.
\<close>

definition visible_for :: "backend \<Rightarrow> Oid \<Rightarrow> Snapshot \<Rightarrow> gstore \<Rightarrow> nat \<Rightarrow> bool" where
  "visible_for be tbl snapshot st i =
    (hash (gs_chunks st i) = legacy_crc32 be (MyDatabaseId be) tbl
     \<and> database_oid (gs_chunks st i) = MyDatabaseId be
     \<and> table_oid (gs_chunks st i) = tbl
     \<and> fst (gstore_fdw_satisfies_visibility be (gs_chunks st i) snapshot))"

definition visible_chunks :: "backend \<Rightarrow> Oid \<Rightarrow> Snapshot \<Rightarrow> gstore \<Rightarrow> nat list" where
  "visible_chunks be tbl snapshot st =
    filter (visible_for be tbl snapshot st)
      (active_chunks st
        (unat (legacy_crc32 be (MyDatabaseId be) tbl) mod GSTORE_CHUNK_HASH_NSLOTS))"

subsection \<open>Release\<close>

text \<open>
  Modelled from the spec: \<^verbatim>\<open>gpuMemFreePreserved\<close> is defined outside the two source
  files. It is the "device memory free" of the device collaborator: the allocation
  with this device index and handle is no longer held.
\<close>

definition gpuMemFreePreserved :: "int \<Rightarrow> nat \<Rightarrow> gstore \<Rightarrow> gstore" where
  "gpuMemFreePreserved dindex mhandle st =
    st\<lparr>preserved := remove1 (dindex, mhandle) (preserved st)\<rparr>"

text \<open>
  \<^verbatim>\<open>gstore_fdw_release_chunk\<close>: \<^verbatim>\<open>dlist_delete\<close> unlinks the descriptor from the list that
  holds it, the device mirror is freed when the chunk is pinned, the local mapping
  is dropped, and the descriptor goes to the head of the free list. The \<^verbatim>\<open>memset\<close> of
  the C code has the size of a \<^verbatim>\<open>GpuStoreMap\<close> (one pointer), so it clears part of the
  list node and no field of the descriptor; \<^verbatim>\<open>dsm_handle\<close> is set to \<^verbatim>\<open>UINT_MAX\<close>.
\<close>

definition gstore_fdw_release_chunk :: "nat \<Rightarrow> gstore \<Rightarrow> gstore" where
  "gstore_fdw_release_chunk i st =
    (let gs_chunk = gs_chunks st i;
         st1 = st\<lparr>active_chunks := (\<lambda>k. removeAll i (active_chunks st k)),
                  free_chunks := removeAll i (free_chunks st)\<rparr>;
         st2 = (if 0 \<le> cuda_dindex gs_chunk
                then gpuMemFreePreserved (cuda_dindex gs_chunk) (ipc_mhandle gs_chunk) st1
                else st1);
         st3 = st2\<lparr>gstore_maps := (gstore_maps st2)(i := None)\<rparr>;
         st4 = st3\<lparr>gs_chunks := (gs_chunks st3)(i := gs_chunk\<lparr>dsm_handle := - 1\<rparr>)\<rparr>
     in st4\<lparr>free_chunks := i # free_chunks st4\<rparr>)"

subsection \<open>Writing a chunk\<close>

text \<open>
  Modelled from the spec: \<^verbatim>\<open>gpuMemAllocPreserved\<close>, \<^verbatim>\<open>gpuIpcOpenMemHandle\<close> and
  \<^verbatim>\<open>gpuIpcCloseMemHandle\<close> are defined outside the two source files, and the other
  calls are CUDA's. They are the device collaborator's "allocate, copy, handle
  export and import, each fallible": each call has a result code, given here in the
  order of the calls of \<^verbatim>\<open>gstore_fdw_load_gpu_preserved\<close> (0 is \<^verbatim>\<open>CUDA_SUCCESS\<close>), and
  the first two hand out an IPC handle and a device pointer. A call that succeeds
  has its effect (memory held, handle opened or closed, context pushed or popped); a
  call that fails has none.
\<close>

record device_results =
  rc_gpuMemAllocPreserved :: nat
  new_ipc_mhandle :: nat
  rc_gpuIpcOpenMemHandle :: nat
  new_deviceptr :: nat
  rc_cuCtxPushCurrent :: nat
  rc_cuMemcpyHtoD :: nat
  rc_gpuIpcCloseMemHandle :: nat
  rc_cuCtxPopCurrent :: nat

text \<open>The body of the \<^verbatim>\<open>PG_TRY\<close> block.\<close>

definition load_gpu_preserved_try :: "device_results \<Rightarrow> gstore \<Rightarrow> gstore \<times> (error + unit)" where
  "load_gpu_preserved_try dev st =
    (if rc_gpuIpcOpenMemHandle dev \<noteq> 0
     then (st, Inl (DeviceOperationFailed ''gpuIpcOpenMemHandle''))
     else let st1 = st\<lparr>ipc_opened := new_deviceptr dev # ipc_opened st\<rparr> in
     if rc_cuCtxPushCurrent dev \<noteq> 0
     then (st1, Inl (DeviceOperationFailed ''cuCtxPushCurrent''))
     else let st2 = st1\<lparr>cuda_ctx_depth := Suc (cuda_ctx_depth st1)\<rparr> in
     if rc_cuMemcpyHtoD dev \<noteq> 0
     then (st2, Inl (DeviceOperationFailed ''cuMemcpyHtoD''))
     else if rc_gpuIpcCloseMemHandle dev \<noteq> 0
     then (st2, Inl (DeviceOperationFailed ''gpuIpcCloseMemHandle''))
     else let st3 = st2\<lparr>ipc_opened := remove1 (new_deviceptr dev) (ipc_opened st2)\<rparr> in
     if rc_cuCtxPopCurrent dev \<noteq> 0
     then (st3, Inl (DeviceOperationFailed ''cuCtxPopCurrent''))
     else (st3\<lparr>cuda_ctx_depth := cuda_ctx_depth st3 - 1\<rparr>, Inr ()))"

text \<open>
  \<^verbatim>\<open>gstore_fdw_load_gpu_preserved\<close> for a context on device \<open>dindex\<close>; the result is the
  IPC handle copied to \<^verbatim>\<open>ptr_mhandle\<close>. The \<^verbatim>\<open>PG_CATCH\<close> block frees the preserved memory
  and raises the error again.
\<close>

definition gstore_fdw_load_gpu_preserved ::
  "device_results \<Rightarrow> int \<Rightarrow> gstore \<Rightarrow> gstore \<times> (error + nat)" where
  "gstore_fdw_load_gpu_preserved dev dindex st =
    (if rc_gpuMemAllocPreserved dev \<noteq> 0
     then (st, Inl (DeviceOperationFailed ''gpuMemAllocPreserved''))
     else
       let mhandle = new_ipc_mhandle dev;
           st1 = st\<lparr>preserved := (dindex, mhandle) # preserved st\<rparr>
       in case load_gpu_preserved_try dev st1 of
            (st2, Inl e) \<Rightarrow> (gpuMemFreePreserved dindex mhandle st2, Inl e)
          | (st2, Inr _) \<Rightarrow> (st2, Inr mhandle))"

text \<open>
  The chunk image the encoding collaborator has built in a new shared segment: the
  item count and byte length of the \<^verbatim>\<open>kern_data_store\<close> and the handle of the segment.
\<close>

record chunk_image =
  img_nitems :: "32 word"
  img_length :: "32 word"
  img_dsm_handle :: "32 word"

text \<open>
  \<^verbatim>\<open>gstore_fdw_writeout_pgstrom\<close>. \<open>gcontext\<close> is the device index of the GPU context of
  a pinned table, or nothing.
\<close>

definition gstore_fdw_writeout_pgstrom ::
  "backend \<Rightarrow> device_results \<Rightarrow> int option \<Rightarrow> Oid \<Rightarrow> chunk_image \<Rightarrow> gstore
    \<Rightarrow> gstore \<times> (error + unit)" where
  "gstore_fdw_writeout_pgstrom be dev gcontext tbl img st =
    (let dindex = (case gcontext of Some d \<Rightarrow> d | None \<Rightarrow> - 1) in
     case (case gcontext of
             Some d \<Rightarrow> gstore_fdw_load_gpu_preserved dev d st
           | None \<Rightarrow> (st, Inr 0)) of
       (st1, Inl e) \<Rightarrow> (st1, Inl e)
     | (st1, Inr mhandle) \<Rightarrow>
         let h = legacy_crc32 be (MyDatabaseId be) tbl in
         (case free_chunks st1 of
            [] \<Rightarrow>
              ((if gcontext \<noteq> None then gpuMemFreePreserved dindex mhandle st1 else st1),
               Inl InsufficientResources)
          | i # rest \<Rightarrow>
              let gs_chunk = \<lparr>hash = h, database_oid = MyDatabaseId be, table_oid = tbl,
                    xmax = InvalidTransactionId, xmin = GetCurrentTransactionId be,
                    cid = GetCurrentCommandId be,
                    xmax_commited = False, xmin_commited = False,
                    kds_nitems = img_nitems img, kds_length = img_length img,
                    cuda_dindex = dindex, ipc_mhandle = mhandle,
                    dsm_handle = img_dsm_handle img\<rparr>;
                  k = unat h mod GSTORE_CHUNK_HASH_NSLOTS
              in (st1\<lparr>free_chunks := rest,
                       gs_chunks := (gs_chunks st1)(i := gs_chunk),
                       gstore_maps := (gstore_maps st1)(i := Some (img_dsm_handle img)),
                       active_chunks := (active_chunks st1)(k := active_chunks st1 k @ [i]),
                       has_warm_chunks := has_warm_chunks st1 + 1\<rparr>,
                  Inr ())))"

subsection \<open>Insert and whole-chunk delete\<close>

text \<open>
  \<^verbatim>\<open>gstoreLoadState\<close>, as far as the store depends on it: the GPU context of a pinned
  table and the numbers of buffered rows and of rooms for them.
\<close>

record gstoreLoadState =
  ls_gcontext :: "int option"
  ls_nrooms :: nat
  ls_nitems :: nat

text \<open>
  \<^verbatim>\<open>gstoreBeginForeignModify\<close>, from the lookup on; \<open>gcontext\<close> is what the table's
  \<^verbatim>\<open>pinning\<close> option and \<^verbatim>\<open>AllocGpuContext\<close> have given before.
\<close>

definition gstoreBeginForeignModify ::
  "backend \<Rightarrow> int option \<Rightarrow> Oid \<Rightarrow> Snapshot \<Rightarrow> gstore \<Rightarrow> gstore \<times> (error + gstoreLoadState)" where
  "gstoreBeginForeignModify be gcontext tbl snapshot st =
    (case gstore_fdw_lookup_chunk be tbl snapshot st of
       (st', Inl e) \<Rightarrow> (st', Inl e)
     | (st', Inr (Some gs_chunk)) \<Rightarrow> (st', Inl FeatureNotSupported)
     | (st', Inr None) \<Rightarrow>
         (st', Inr \<lparr>ls_gcontext = gcontext, ls_nrooms = 10000, ls_nitems = 0\<rparr>))"

definition gstoreExecForeignInsert :: "gstoreLoadState \<Rightarrow> gstoreLoadState" where
  "gstoreExecForeignInsert gs_lstate =
    (let grown = (if ls_nitems gs_lstate = ls_nrooms gs_lstate
                  then gs_lstate\<lparr>ls_nrooms := ls_nrooms gs_lstate + (ls_nrooms gs_lstate + 5000)\<rparr>
                  else gs_lstate)
     in grown\<lparr>ls_nitems := ls_nitems grown + 1\<rparr>)"

text \<open>
  \<^verbatim>\<open>gstoreEndForeignModify\<close> writes the chunk out when rows were buffered; the image is
  the encoding of the buffered rows.
\<close>

definition gstoreEndForeignModify ::
  "backend \<Rightarrow> device_results \<Rightarrow> Oid \<Rightarrow> chunk_image \<Rightarrow> gstoreLoadState \<Rightarrow> gstore
    \<Rightarrow> gstore \<times> (error + unit)" where
  "gstoreEndForeignModify be dev tbl img gs_lstate st =
    (if 0 < ls_nitems gs_lstate
     then gstore_fdw_writeout_pgstrom be dev (ls_gcontext gs_lstate) tbl img st
     else (st, Inr ()))"

text \<open>
  \<^verbatim>\<open>gstoreIterateDirectModify\<close>: the result of the lookup is used as it comes. With no
  chunk found the first access is through a null pointer; the \<^verbatim>\<open>Assert\<close> is the only
  test of the delete transaction id. The value returned on success is the number of
  rows added to \<^verbatim>\<open>es_processed\<close>.
\<close>

definition gstoreIterateDirectModify ::
  "backend \<Rightarrow> Oid \<Rightarrow> Snapshot \<Rightarrow> gstore \<Rightarrow> gstore \<times> (error + 32 word)" where
  "gstoreIterateDirectModify be tbl snapshot st =
    (case gstore_fdw_lookup_chunk be tbl snapshot st of
       (st1, Inl e) \<Rightarrow> (st1, Inl e)
     | (st1, Inr None) \<Rightarrow> (st1, Inl NullPointerDereference)
     | (st1, Inr (Some i)) \<Rightarrow>
         let gs_chunk = gs_chunks st1 i in
         if TransactionIdIsValid (xmax gs_chunk) then (st1, Inl AssertionFailed)
         else
           (st1\<lparr>gs_chunks := (gs_chunks st1)
                    (i := gs_chunk\<lparr>xmax := GetCurrentTransactionId be,
                                   cid := GetCurrentCommandId be\<rparr>),
                gstore_maps := (gstore_maps st1)(i := None),
                has_warm_chunks := has_warm_chunks st1 + 1\<rparr>,
            Inr (kds_nitems gs_chunk)))"

subsection \<open>The transaction callback\<close>

text \<open>
  \<^verbatim>\<open>gstoreOnXactCallbackPerChunk\<close>, in the three parts the C function has. The first
  \<^verbatim>\<open>if\<close> settles a delete by the ending transaction; the second settles an insert
  by it, where \<open>xact_end_xmin\<close> is the commit branch; \<open>xact_reclaim_chunk\<close> is the chain
  of \<^verbatim>\<open>if\<close>/\<^verbatim>\<open>else if\<close> that follows, run on the descriptor \<open>c\<close> the first two parts
  have left at index \<open>i\<close>. The result tells whether the chunk needs a later pass.
\<close>

definition xact_end_xmax :: "backend \<Rightarrow> bool \<Rightarrow> GpuStoreChunk \<Rightarrow> GpuStoreChunk" where
  "xact_end_xmax be is_commit c =
    (if TransactionIdIsCurrentTransactionId be (xmax c)
     then (if is_commit then c\<lparr>xmax_commited := True\<rparr> else c\<lparr>xmax := InvalidTransactionId\<rparr>)
     else c)"

definition xact_end_xmin :: "backend \<Rightarrow> GpuStoreChunk \<Rightarrow> GpuStoreChunk" where
  "xact_end_xmin be c =
    (if TransactionIdIsCurrentTransactionId be (xmin c) then c\<lparr>xmin_commited := True\<rparr> else c)"

definition xact_reclaim_chunk ::
  "backend \<Rightarrow> nat \<Rightarrow> TransactionId \<Rightarrow> GpuStoreChunk \<Rightarrow> gstore \<Rightarrow> bool \<times> gstore" where
  "xact_reclaim_chunk be i oldestXmin c st =
    (let st' = st\<lparr>gs_chunks := (gs_chunks st)(i := c)\<rparr> in
     if TransactionIdIsValid (xmax c) then
       (if \<not> xmax_commited c then (True, st')
        else if \<not> TransactionIdPrecedes be (xmax c) oldestXmin then (True, st')
        else (False, gstore_fdw_release_chunk i st'))
     else if TransactionIdIsNormal (xmin c) then
       (if \<not> xmin_commited c then (True, st')
        else if \<not> TransactionIdPrecedes be (xmin c) oldestXmin then (True, st')
        else (False, st\<lparr>gs_chunks := (gs_chunks st)(i := c\<lparr>xmin := FrozenTransactionId\<rparr>)\<rparr>))
     else if \<not> TransactionIdIsValid (xmin c) then (False, gstore_fdw_release_chunk i st')
     else (False, st'))"

definition gstoreOnXactCallbackPerChunk ::
  "backend \<Rightarrow> bool \<Rightarrow> nat \<Rightarrow> TransactionId \<Rightarrow> gstore \<Rightarrow> bool \<times> gstore" where
  "gstoreOnXactCallbackPerChunk be is_commit i oldestXmin st =
    (let c1 = xact_end_xmax be is_commit (gs_chunks st i) in
     if TransactionIdIsCurrentTransactionId be (xmin c1) \<and> \<not> is_commit
     then (False, gstore_fdw_release_chunk i (st\<lparr>gs_chunks := (gs_chunks st)(i := c1)\<rparr>))
     else xact_reclaim_chunk be i oldestXmin (xact_end_xmin be c1) st)"

datatype XactEvent = XACT_EVENT_COMMIT | XACT_EVENT_ABORT | XACT_EVENT_OTHER

text \<open>
  The \<^verbatim>\<open>dlist_foreach_modify\<close> over one bucket: the iterator has read the next node
  before the body runs, so the loop visits the nodes the bucket held on entry, and
  \<open>meet_warm_chunks\<close> collects the results.
\<close>

fun xact_scan_bucket ::
  "backend \<Rightarrow> bool \<Rightarrow> TransactionId \<Rightarrow> nat list \<Rightarrow> bool \<Rightarrow> gstore \<Rightarrow> bool \<times> gstore" where
  "xact_scan_bucket be is_commit oldestXmin [] meet_warm_chunks st = (meet_warm_chunks, st)"
| "xact_scan_bucket be is_commit oldestXmin (i # rest) meet_warm_chunks st =
    (case gstoreOnXactCallbackPerChunk be is_commit i oldestXmin st of
       (warm, st') \<Rightarrow>
         xact_scan_bucket be is_commit oldestXmin rest (warm \<or> meet_warm_chunks) st')"

text \<open>The \<^verbatim>\<open>for\<close> loop over the buckets \<open>ks\<close> that are left.\<close>

fun xact_scan_slots ::
  "backend \<Rightarrow> bool \<Rightarrow> TransactionId \<Rightarrow> nat list \<Rightarrow> bool \<Rightarrow> gstore \<Rightarrow> bool \<times> gstore" where
  "xact_scan_slots be is_commit oldestXmin [] meet_warm_chunks st = (meet_warm_chunks, st)"
| "xact_scan_slots be is_commit oldestXmin (k # ks) meet_warm_chunks st =
    (case xact_scan_bucket be is_commit oldestXmin (active_chunks st k) meet_warm_chunks st of
       (warm, st') \<Rightarrow> xact_scan_slots be is_commit oldestXmin ks warm st')"

text \<open>
  \<^verbatim>\<open>gstoreXactCallback\<close>; \<open>oldestXmin\<close> is the answer of \<^verbatim>\<open>GetOldestXmin(NULL, true)\<close>.
\<close>

definition gstoreXactCallback :: "backend \<Rightarrow> XactEvent \<Rightarrow> TransactionId \<Rightarrow> gstore \<Rightarrow> gstore" where
  "gstoreXactCallback be event oldestXmin st =
    (if event = XACT_EVENT_OTHER then st
     else if has_warm_chunks st = 0 then st
     else
       (case xact_scan_slots be (event = XACT_EVENT_COMMIT) oldestXmin
               [0 ..< GSTORE_CHUNK_HASH_NSLOTS] False st of
          (meet_warm_chunks, st') \<Rightarrow>
            if \<not> meet_warm_chunks then st'\<lparr>has_warm_chunks := 0\<rparr> else st'))"

text \<open>
  A chunk of the store still needs attention when the per-chunk callback says so.
  \<open>xact_scan_rel\<close> relates the store before and after a part of the scan: the
  verdicts and the flag are the same, no bucket has gained a descriptor, and no
  bucket has lost one that needs attention.
\<close>

definition xact_keeps :: "backend \<Rightarrow> bool \<Rightarrow> TransactionId \<Rightarrow> gstore \<Rightarrow> nat \<Rightarrow> bool" where
  "xact_keeps be is_commit oldestXmin st i =
     fst (gstoreOnXactCallbackPerChunk be is_commit i oldestXmin st)"

definition xact_scan_rel :: "backend \<Rightarrow> bool \<Rightarrow> TransactionId \<Rightarrow> gstore \<Rightarrow> gstore \<Rightarrow> bool" where
  "xact_scan_rel be is_commit oldestXmin st st' =
    (xact_keeps be is_commit oldestXmin st' = xact_keeps be is_commit oldestXmin st
     \<and> has_warm_chunks st' = has_warm_chunks st
     \<and> (\<forall>k. set (active_chunks st' k) \<subseteq> set (active_chunks st k))
     \<and> (\<forall>k j. j \<in> set (active_chunks st k) \<and> xact_keeps be is_commit oldestXmin st j
            \<longrightarrow> j \<in> set (active_chunks st' k)))"

section \<open>GPU contexts\<close>

subsection \<open>The resource tracker\<close>

type_synonym CUdeviceptr = "64 word"
type_synonym pointer = "64 word"

definition RESTRACK_CLASS__GPUMEMORY :: int where
  "RESTRACK_CLASS__GPUMEMORY = 2"

definition RESTRACK_CLASS__GPUPROGRAM :: int where
  "RESTRACK_CLASS__GPUPROGRAM = 3"

definition RESTRACK_CLASS__IOMAPMEMORY :: int where
  "RESTRACK_CLASS__IOMAPMEMORY = 4"

text \<open>
  \<^verbatim>\<open>struct ResourceTracker\<close> with the \<^verbatim>\<open>devmem\<close> member of its union; the null pointer is
  0. The list node is again the position in a list.
\<close>

record ResourceTracker =
  crc :: pg_crc32
  resclass :: int
  devmem_ptr :: CUdeviceptr
  devmem_extra :: pointer

text \<open>
  Modelled from the spec: \<^verbatim>\<open>RESTRACK_HASHSIZE\<close> is defined in \<^verbatim>\<open>pg_strom.h\<close>, which is not
  among the sources, and \<^verbatim>\<open>resource_tracker_hashval\<close> computes PostgreSQL's legacy CRC32
  of the class tag and the identity bytes ("identity hash combines class tag and
  identity bytes via a stable checksum"). Both are parameters.
\<close>

record restrack_env =
  RESTRACK_HASHSIZE :: nat
  resource_tracker_hashval :: "int \<Rightarrow> 64 word \<Rightarrow> pg_crc32"

text \<open>
  Modelled from the spec: \<^verbatim>\<open>GpuContext\<close> is declared in \<^verbatim>\<open>pg_strom.h\<close>, which is not among
  the sources; these are the fields \<^verbatim>\<open>gpu_context.c\<close> uses, the local reference count
  (\<^verbatim>\<open>refcnt\<close>, a \<^verbatim>\<open>pg_atomic_uint32\<close>) under the name \<open>gc_refcnt\<close>. A context is a heap
  object: \<open>gc_addr\<close> is its address, the value of a \<^verbatim>\<open>GpuContext *\<close>. \<open>gc_slot\<close> is the
  index of the list of \<^verbatim>\<open>activeGpuContextSlot\<close> the context is linked into, and
  \<open>shgcon\<close> the index of its shared descriptor in \<^verbatim>\<open>context_array\<close>.
\<close>

record GpuContext =
  gc_addr :: nat
  gc_slot :: nat
  gpuserv_id :: int
  sockfd :: int
  resowner :: nat
  shgcon :: nat
  gc_refcnt :: "32 word"
  is_unlinked :: "32 word"
  restrack :: "nat \<Rightarrow> ResourceTracker list"

text \<open>
  The thread's pool of unused tracker structs (\<^verbatim>\<open>inactiveResourceTracker\<close>; the structs
  are zeroed, so their number is all there is to them) and the notices written.
\<close>

record tracker_pool =
  inactiveResourceTracker :: nat
  notices :: "string list"

text \<open>\<^verbatim>\<open>resource_tracker_alloc\<close>; \<open>calloc_ok\<close> tells whether \<^verbatim>\<open>calloc\<close> would succeed.\<close>

definition resource_tracker_alloc :: "bool \<Rightarrow> tracker_pool \<Rightarrow> bool \<times> tracker_pool" where
  "resource_tracker_alloc calloc_ok tp =
    (if inactiveResourceTracker tp = 0 then (calloc_ok, tp)
     else (True, tp\<lparr>inactiveResourceTracker := inactiveResourceTracker tp - 1\<rparr>))"

definition trackGpuMem ::
  "restrack_env \<Rightarrow> bool \<Rightarrow> CUdeviceptr \<Rightarrow> pointer \<Rightarrow> GpuContext \<times> tracker_pool
    \<Rightarrow> bool \<times> GpuContext \<times> tracker_pool" where
  "trackGpuMem env calloc_ok devptr extra s =
    (case s of (gcontext, tp) \<Rightarrow>
     case resource_tracker_alloc calloc_ok tp of
       (False, tp') \<Rightarrow> (False, gcontext, tp')
     | (True, tp') \<Rightarrow>
         let c = resource_tracker_hashval env RESTRACK_CLASS__GPUMEMORY devptr;
             tracker = \<lparr>crc = c, resclass = RESTRACK_CLASS__GPUMEMORY,
                        devmem_ptr = devptr, devmem_extra = extra\<rparr>;
             k = unat c mod RESTRACK_HASHSIZE env
         in (True,
             gcontext\<lparr>restrack := (restrack gcontext)(k := restrack gcontext k @ [tracker])\<rparr>,
             tp'))"

text \<open>
  The \<^verbatim>\<open>dlist_foreach\<close> of \<^verbatim>\<open>untrackGpuMem\<close>: the first tracker of the list with the CRC,
  the class and the pointer is unlinked; the result is its \<^verbatim>\<open>extra\<close> and the list
  without it.
\<close>

fun untrack_scan ::
  "pg_crc32 \<Rightarrow> CUdeviceptr \<Rightarrow> ResourceTracker list \<Rightarrow> (pointer \<times> ResourceTracker list) option" where
  "untrack_scan c devptr [] = None"
| "untrack_scan c devptr (tracker # rest) =
    (if crc tracker = c \<and> resclass tracker = RESTRACK_CLASS__GPUMEMORY
        \<and> devmem_ptr tracker = devptr
     then Some (devmem_extra tracker, rest)
     else (case untrack_scan c devptr rest of
             None \<Rightarrow> None
           | Some (extra, rest') \<Rightarrow> Some (extra, tracker # rest')))"

definition untrackGpuMem ::
  "restrack_env \<Rightarrow> CUdeviceptr \<Rightarrow> GpuContext \<times> tracker_pool \<Rightarrow> pointer \<times> GpuContext \<times> tracker_pool" where
  "untrackGpuMem env devptr s =
    (case s of (gcontext, tp) \<Rightarrow>
     let c = resource_tracker_hashval env RESTRACK_CLASS__GPUMEMORY devptr;
         k = unat c mod RESTRACK_HASHSIZE env
     in case untrack_scan c devptr (restrack gcontext k) of
          Some (extra, rest) \<Rightarrow>
            (extra,
             gcontext\<lparr>restrack := (restrack gcontext)(k := rest)\<rparr>,
             tp\<lparr>inactiveResourceTracker := inactiveResourceTracker tp + 1\<rparr>)
        | None \<Rightarrow>
            (0, gcontext,
             tp\<lparr>notices := notices tp @ [''Bug? GPU Device Memory was not tracked'']\<rparr>))"

text \<open>
  A device pointer is tracked in a context when some list of the tracker holds a
  device-memory entry for it.
\<close>

definition gpumem_tracked :: "GpuContext \<Rightarrow> CUdeviceptr \<Rightarrow> bool" where
  "gpumem_tracked gcontext devptr =
    (\<exists>k. \<exists>tracker \<in> set (restrack gcontext k).
        resclass tracker = RESTRACK_CLASS__GPUMEMORY \<and> devmem_ptr tracker = devptr)"

subsection \<open>The pool of shared descriptors\<close>

text \<open>
  Modelled from the spec: \<^verbatim>\<open>SharedGpuContext\<close> is declared in \<^verbatim>\<open>pg_strom.h\<close>, which is not
  among the sources; these are the fields \<^verbatim>\<open>gpu_context.c\<close> uses. \<open>server\<close> and \<open>backend\<close>
  are the \<^verbatim>\<open>PGPROC\<close> of the process attached on either side, or null; \<open>refcnt\<close> is the
  shared reference count, a signed integer.
\<close>

record SharedGpuContext =
  server :: "nat option"
  backend :: "nat option"
  ParallelWorkerNumber :: int
  in_termination :: "32 word"
  refcnt :: int
  dma_buffer_list :: "nat list"
  num_async_tasks :: int

definition ACTIVE_GPU_CONTEXT_NSLOTS :: nat where
  "ACTIVE_GPU_CONTEXT_NSLOTS = 768"

definition PGINVALID_SOCKET :: int where
  "PGINVALID_SOCKET = - 1"

text \<open>
  The shared head (\<^verbatim>\<open>free_list\<close> and \<^verbatim>\<open>context_array\<close>) and, for every process, its
  array \<^verbatim>\<open>activeGpuContextSlot\<close> of lists of local contexts. The lists of one process
  are kept as one list, newest first, each context tagged with the index of its list
  (\<open>gc_slot\<close>): list \<open>k\<close> of process \<open>p\<close> is the contexts of \<open>active_contexts st p\<close> with
  \<open>gc_slot = k\<close>, in that order. A process is named by its \<^verbatim>\<open>MyProc\<close>.
\<close>

record pool_state =
  free_list :: "nat list"
  context_array :: "nat \<Rightarrow> SharedGpuContext"
  active_contexts :: "nat \<Rightarrow> GpuContext list"

text \<open>
  \<open>NotBackendProcess\<close> is the \<^verbatim>\<open>elog(FATAL)\<close> of \<^verbatim>\<open>AllocGpuContext\<close> and \<open>NotServerProcess\<close> the
  \<^verbatim>\<open>wfatal\<close> of \<^verbatim>\<open>AttachGpuContext\<close>; \<open>OutOfMemory\<close>, \<open>NoAvailableSharedGpuContext\<close>,
  \<open>ConnectionFailed\<close> and \<open>EpollFailed\<close> are raised as errors. \<open>AssertFailed\<close> is a failed
  \<^verbatim>\<open>Assert\<close>. The last two are not outcomes of the C code but misuse the model
  rejects: a \<^verbatim>\<open>GpuContext *\<close> that is not a live context of the process, and a \<^verbatim>\<open>calloc\<close>
  that would hand out the address of a live context.
\<close>

datatype pool_error =
    NotBackendProcess
  | NotServerProcess
  | OutOfMemory
  | NoAvailableSharedGpuContext
  | ConnectionFailed
  | EpollFailed
  | AssertFailed
  | DanglingGpuContext
  | AddressInUse

text \<open>
  After an error that is raised the process goes on; after the others (a fatal
  error, a failed assertion, misuse) it does not.
\<close>

fun stops :: "pool_error \<Rightarrow> bool" where
  "stops OutOfMemory = False"
| "stops NoAvailableSharedGpuContext = False"
| "stops ConnectionFailed = False"
| "stops EpollFailed = False"
| "stops _ = True"

text \<open>
  \<^verbatim>\<open>pgstrom_startup_gpu_context\<close> for \<^verbatim>\<open>numGpuContexts = n\<close>: every descriptor of the
  array is zeroed and pushed to the tail of the free list. (The master context is a
  descriptor of its own, outside the array, and is never put.)
\<close>

definition pgstrom_startup_gpu_context :: "nat \<Rightarrow> pool_state" where
  "pgstrom_startup_gpu_context n =
    \<lparr>free_list = [0 ..< n],
     context_array = (\<lambda>i. \<lparr>server = None, backend = None, ParallelWorkerNumber = 0,
        in_termination = 0, refcnt = 0, dma_buffer_list = [], num_async_tasks = 0\<rparr>),
     active_contexts = (\<lambda>p. [])\<rparr>"

text \<open>
  \<^verbatim>\<open>AllocGpuContext\<close> in process \<open>p\<close>. \<open>srv\<close> is \<^verbatim>\<open>IsGpuServerProcess()\<close> of every process,
  \<open>owner\<close> is \<^verbatim>\<open>CurrentResourceOwner\<close> and \<open>pwn\<close> is \<^verbatim>\<open>ParallelWorkerNumber\<close>; \<open>calloc\<close> is
  the address \<^verbatim>\<open>calloc\<close> returns (or null). The result is the address of the context.

  Modelled from the spec: \<^verbatim>\<open>gpuservOpenConnection\<close> is defined outside the two source
  files. It is the "optionally open a transport connection" of the spec: \<open>conn\<close> is
  the socket it stores in the context, or nothing when it raises an error; the
  context is registered by then.
\<close>

definition AllocGpuContext ::
  "(nat \<Rightarrow> bool) \<Rightarrow> nat \<Rightarrow> nat \<Rightarrow> int \<Rightarrow> bool \<Rightarrow> nat option \<Rightarrow> int option \<Rightarrow> pool_state
    \<Rightarrow> pool_state \<times> (pool_error + nat)" where
  "AllocGpuContext srv p owner pwn with_connection calloc conn st =
    (if srv p then (st, Inl NotBackendProcess)
     else
       case find (\<lambda>g. gc_slot g = 0 \<and> resowner g = owner
                    \<and> (if with_connection then sockfd g \<noteq> PGINVALID_SOCKET
                        else sockfd g = PGINVALID_SOCKET))
                 (active_contexts st p) of
         Some gcontext \<Rightarrow>
           (st\<lparr>active_contexts := (active_contexts st)
                 (p := map (\<lambda>g. if gc_addr g = gc_addr gcontext
                                 then g\<lparr>gc_refcnt := gc_refcnt g + 1\<rparr> else g)
                           (active_contexts st p))\<rparr>,
            Inr (gc_addr gcontext))
       | None \<Rightarrow>
           (case calloc of
              None \<Rightarrow> (st, Inl OutOfMemory)
            | Some a \<Rightarrow>
                if a \<in> gc_addr ` set (active_contexts st p) then (st, Inl AddressInUse)
                else
                  (case free_list st of
                     [] \<Rightarrow> (st, Inl NoAvailableSharedGpuContext)
                   | i # rest \<Rightarrow>
                       let shg = (context_array st i)
                             \<lparr>server := None, backend := Some p, ParallelWorkerNumber := pwn,
                              in_termination := 0, refcnt := 1, dma_buffer_list := [],
                              num_async_tasks := 0\<rparr>;
                           gcontext = \<lparr>gc_addr = a, gc_slot = 0, gpuserv_id = - 1,
                              sockfd = PGINVALID_SOCKET, resowner = owner, shgcon = i,
                              gc_refcnt = 1, is_unlinked = 0, restrack = (\<lambda>k. [])\<rparr>;
                           st1 = st\<lparr>free_list := rest,
                                    context_array := (context_array st)(i := shg)\<rparr>
                       in
                       if with_connection then
                         (case conn of
                            None \<Rightarrow>
                              (st1\<lparr>active_contexts := (active_contexts st)
                                     (p := gcontext # active_contexts st p)\<rparr>,
                               Inl ConnectionFailed)
                          | Some fd \<Rightarrow>
                              (st1\<lparr>active_contexts := (active_contexts st)
                                     (p := gcontext\<lparr>sockfd := fd\<rparr> # active_contexts st p)\<rparr>,
                               Inr a))
                       else
                         (st1\<lparr>active_contexts := (active_contexts st)
                                (p := gcontext # active_contexts st p)\<rparr>,
                          Inr a))))"

text \<open>
  \<^verbatim>\<open>AttachGpuContext\<close> in process \<open>p\<close> for the socket \<open>fd\<close> and the shared descriptor
  \<open>i\<close>; \<open>dindex\<close> is \<^verbatim>\<open>gpuserv_cuda_dindex\<close> and \<open>epoll_ok\<close> tells whether \<^verbatim>\<open>epoll_ctl\<close>
  succeeds.
\<close>

definition AttachGpuContext ::
  "(nat \<Rightarrow> bool) \<Rightarrow> nat \<Rightarrow> nat \<Rightarrow> int \<Rightarrow> nat \<Rightarrow> nat \<Rightarrow> nat option \<Rightarrow> bool \<Rightarrow> pool_state
    \<Rightarrow> pool_state \<times> (pool_error + nat)" where
  "AttachGpuContext srv p owner dindex fd i calloc epoll_ok st =
    (if \<not> srv p then (st, Inl NotServerProcess)
     else
       case calloc of
         None \<Rightarrow> (st, Inl OutOfMemory)
       | Some a \<Rightarrow>
           if a \<in> gc_addr ` set (active_contexts st p) then (st, Inl AddressInUse)
           else if \<not> epoll_ok then (st, Inl EpollFailed)
           else
             let shg = context_array st i in
             if \<not> (0 < refcnt shg \<and> backend shg \<noteq> None \<and> server shg = None
                    \<and> num_async_tasks shg = 0)
             then (st, Inl AssertFailed)
             else
               let gcontext = \<lparr>gc_addr = a, gc_slot = fd mod ACTIVE_GPU_CONTEXT_NSLOTS,
                      gpuserv_id = dindex, sockfd = int fd, resowner = owner, shgcon = i,
                      gc_refcnt = 1, is_unlinked = 0, restrack = (\<lambda>k. [])\<rparr>
               in (st\<lparr>context_array := (context_array st)
                         (i := shg\<lparr>refcnt := refcnt shg + 1, server := Some p\<rparr>),
                       active_contexts := (active_contexts st)
                         (p := gcontext # active_contexts st p)\<rparr>,
                   Inr a))"

text \<open>\<^verbatim>\<open>GetGpuContext\<close> on the context at address \<open>a\<close> of process \<open>p\<close>.\<close>

definition GetGpuContext :: "nat \<Rightarrow> nat \<Rightarrow> pool_state \<Rightarrow> pool_state \<times> (pool_error + nat)" where
  "GetGpuContext p a st =
    (case find (\<lambda>g. gc_addr g = a) (active_contexts st p) of
       None \<Rightarrow> (st, Inl DanglingGpuContext)
     | Some gcontext \<Rightarrow>
         if \<not> 0 < gc_refcnt gcontext then (st, Inl AssertFailed)
         else
           (st\<lparr>active_contexts := (active_contexts st)
                 (p := map (\<lambda>g. if gc_addr g = a then g\<lparr>gc_refcnt := gc_refcnt g + 1\<rparr> else g)
                           (active_contexts st p))\<rparr>,
            Inr a))"

text \<open>
  \<^verbatim>\<open>PutSharedGpuContext\<close> in process \<open>p\<close> on the descriptor \<open>i\<close>. The second assertion of
  the C code (the list node of the descriptor is unlinked) reads here: the
  descriptor is not in the free list.

  Modelled from the spec: \<^verbatim>\<open>dmaBufferFreeAll\<close> is defined outside the two source files.
  It "frees the descriptor's bulk-transfer buffers": the list of DMA buffers of the
  descriptor is empty afterwards.
\<close>

definition PutSharedGpuContext ::
  "(nat \<Rightarrow> bool) \<Rightarrow> nat \<Rightarrow> nat \<Rightarrow> pool_state \<Rightarrow> pool_state \<times> (pool_error + unit)" where
  "PutSharedGpuContext srv p i st =
    (let shg = context_array st i in
     if \<not> 0 < refcnt shg then (st, Inl AssertFailed)
     else
       let shg1 = (if srv p then shg\<lparr>server := None\<rparr> else shg\<lparr>backend := None\<rparr>);
           shg2 = shg1\<lparr>refcnt := refcnt shg1 - 1\<rparr>;
           st2 = st\<lparr>context_array := (context_array st)(i := shg2)\<rparr>
       in
       if 0 < refcnt shg2 then (st2, Inr ())
       else if \<not> (server shg2 = None \<and> backend shg2 = None) then (st2, Inl AssertFailed)
       else if i \<in> set (free_list st) then (st2, Inl AssertFailed)
       else
         (st\<lparr>context_array := (context_array st)(i := shg2\<lparr>dma_buffer_list := []\<rparr>),
              free_list := i # free_list st\<rparr>,
          Inr ()))"

text \<open>
  \<^verbatim>\<open>PutGpuContext\<close> on the context at address \<open>a\<close> of process \<open>p\<close>. When the local count
  reaches zero the context is unlinked and freed; what \<^verbatim>\<open>ReleaseLocalResources\<close> and
  \<^verbatim>\<open>gpuservClenupGpuContext\<close> do before is done to that context and to the device only.
\<close>

definition PutGpuContext ::
  "(nat \<Rightarrow> bool) \<Rightarrow> nat \<Rightarrow> nat \<Rightarrow> pool_state \<Rightarrow> pool_state \<times> (pool_error + unit)" where
  "PutGpuContext srv p a st =
    (case find (\<lambda>g. gc_addr g = a) (active_contexts st p) of
       None \<Rightarrow> (st, Inl DanglingGpuContext)
     | Some gcontext \<Rightarrow>
         let newcnt = gc_refcnt gcontext - 1 in
         if newcnt = 0 then
           PutSharedGpuContext srv p (shgcon gcontext)
             (st\<lparr>active_contexts := (active_contexts st)
                   (p := filter (\<lambda>g. gc_addr g \<noteq> a) (active_contexts st p))\<rparr>)
         else
           (st\<lparr>active_contexts := (active_contexts st)
                 (p := map (\<lambda>g. if gc_addr g = a then g\<lparr>gc_refcnt := newcnt\<rparr> else g)
                           (active_contexts st p))\<rparr>,
            Inr ()))"

text \<open>The operations on the pool, each with the process that calls it.\<close>

datatype pool_op =
    Alloc nat nat int bool "nat option" "int option"
  | Attach nat nat int nat nat "nat option" bool
  | Get nat nat
  | Put nat nat

fun pool_step :: "(nat \<Rightarrow> bool) \<Rightarrow> pool_state \<Rightarrow> pool_op \<Rightarrow> pool_state \<times> pool_error option" where
  "pool_step srv st (Alloc p owner pwn with_connection calloc conn) =
    (case AllocGpuContext srv p owner pwn with_connection calloc conn st of
       (st', Inl e) \<Rightarrow> (st', Some e) | (st', Inr _) \<Rightarrow> (st', None))"
| "pool_step srv st (Attach p owner dindex fd i calloc epoll_ok) =
    (case AttachGpuContext srv p owner dindex fd i calloc epoll_ok st of
       (st', Inl e) \<Rightarrow> (st', Some e) | (st', Inr _) \<Rightarrow> (st', None))"
| "pool_step srv st (Get p a) =
    (case GetGpuContext p a st of
       (st', Inl e) \<Rightarrow> (st', Some e) | (st', Inr _) \<Rightarrow> (st', None))"
| "pool_step srv st (Put p a) =
    (case PutGpuContext srv p a st of
       (st', Inl e) \<Rightarrow> (st', Some e) | (st', Inr _) \<Rightarrow> (st', None))"

text \<open>
  A sequence of operations runs from left to right. It has no final state when an
  operation ends in an error after which the process does not go on.
\<close>

fun pool_run :: "(nat \<Rightarrow> bool) \<Rightarrow> pool_state \<Rightarrow> pool_op list \<Rightarrow> pool_state option" where
  "pool_run srv st [] = Some st"
| "pool_run srv st (x # xs) =
    (case pool_step srv st x of
       (st', None) \<Rightarrow> pool_run srv st' xs
     | (st', Some e) \<Rightarrow> if stops e then None else pool_run srv st' xs)"

text \<open>
  The invariant of the pool with \<open>n\<close> descriptors: the free list names each free
  descriptor once; a descriptor's count is the number of sides attached to it; a
  descriptor is in the free list exactly when it is one of the \<open>n\<close> and its count is
  zero; no side is attached outside the array; every local context is known to its
  descriptor as the backend or the server side; and the local contexts of a process
  have different descriptors and different addresses.
\<close>

definition pool_inv :: "(nat \<Rightarrow> bool) \<Rightarrow> nat \<Rightarrow> pool_state \<Rightarrow> bool" where
  "pool_inv srv n st =
    (distinct (free_list st)
     \<and> (\<forall>i. refcnt (context_array st i)
            = (if backend (context_array st i) = None then 0 else 1)
              + (if server (context_array st i) = None then 0 else 1))
     \<and> (\<forall>i. (i \<in> set (free_list st)) = (i < n \<and> refcnt (context_array st i) = 0))
     \<and> (\<forall>i. n \<le> i \<longrightarrow> backend (context_array st i) = None \<and> server (context_array st i) = None)
     \<and> (\<forall>p. \<forall>g \<in> set (active_contexts st p).
            (if srv p then server (context_array st (shgcon g)) = Some p
             else backend (context_array st (shgcon g)) = Some p))
     \<and> (\<forall>p. distinct (map shgcon (active_contexts st p)))
     \<and> (\<forall>p. distinct (map gc_addr (active_contexts st p))))"

section \<open>Example values\<close>

text \<open>
  A backend running transaction 100 at command 5 in database 1, a snapshot for which
  transaction 70 is in flight, a chunk that transaction has inserted at command 3, and
  a store that holds the chunk at index 0, with two free descriptors.
\<close>

definition demo_backend :: backend where
  "demo_backend =
    \<lparr>TransactionIdIsCurrentTransactionId = (\<lambda>xid. xid = 100),
     TransactionIdDidCommit = (\<lambda>xid. xid = 50),
     TransactionIdPrecedes = (\<lambda>a b. a < b),
     GetCurrentTransactionId = 100,
     GetCurrentCommandId = 5,
     MyDatabaseId = 1,
     legacy_crc32 = (\<lambda>db tbl. db + tbl)\<rparr>"

definition demo_snapshot :: Snapshot where
  "demo_snapshot = \<lparr>curcid = 5, xip = (\<lambda>xid. xid = 70)\<rparr>"

definition demo_chunk :: GpuStoreChunk where
  "demo_chunk =
    \<lparr>hash = 8, database_oid = 1, table_oid = 7, xmax = 0, xmin = 100, cid = 3,
     xmax_commited = False, xmin_commited = False, kds_nitems = 3, kds_length = 4096,
     cuda_dindex = - 1, ipc_mhandle = 0, dsm_handle = 11\<rparr>"

definition demo_store :: gstore where
  "demo_store =
    \<lparr>has_warm_chunks = 1, free_chunks = [1, 2],
     active_chunks = (\<lambda>k. if k = 8 then [0] else []),
     gs_chunks = (\<lambda>i. demo_chunk),
     gstore_maps = (\<lambda>i. None),
     preserved = [], ipc_opened = [], cuda_ctx_depth = 0\<rparr>"

definition demo_device :: device_results where
  "demo_device =
    \<lparr>rc_gpuMemAllocPreserved = 0, new_ipc_mhandle = 21, rc_gpuIpcOpenMemHandle = 0,
     new_deviceptr = 4096, rc_cuCtxPushCurrent = 0, rc_cuMemcpyHtoD = 0,
     rc_gpuIpcCloseMemHandle = 0, rc_cuCtxPopCurrent = 0\<rparr>"

definition demo_image :: chunk_image where
  "demo_image = \<lparr>img_nitems = 3, img_length = 4096, img_dsm_handle = 12\<rparr>"

text \<open>
  The same store after transaction 50, which committed, has inserted the chunk and
  the insert has been marked.
\<close>

definition demo_old_chunk :: GpuStoreChunk where
  "demo_old_chunk = demo_chunk\<lparr>xmin := 50, xmin_commited := True\<rparr>"

definition demo_old_store :: gstore where
  "demo_old_store = demo_store\<lparr>gs_chunks := (\<lambda>i. demo_old_chunk)\<rparr>"

text \<open>
  A tracker whose checksum sends every identity to list 7, a context that tracks
  nothing, and an empty pool of tracker structs.
\<close>

definition demo_restrack_env :: restrack_env where
  "demo_restrack_env = \<lparr>RESTRACK_HASHSIZE = 53, resource_tracker_hashval = (\<lambda>cls p. 7)\<rparr>"

definition demo_gcontext :: GpuContext where
  "demo_gcontext =
    \<lparr>gc_addr = 1, gc_slot = 0, gpuserv_id = - 1, sockfd = - 1, resowner = 1, shgcon = 0,
     gc_refcnt = 1, is_unlinked = 0, restrack = (\<lambda>k. [])\<rparr>"

definition demo_tracker_pool :: tracker_pool where
  "demo_tracker_pool = \<lparr>inactiveResourceTracker = 0, notices = []\<rparr>"

text \<open>
  Two processes, the backend 10 and the GPU server 20. The backend acquires a
  context without a connection and the server attaches to its shared descriptor;
  \<open>demo_pool_state\<close> is the pool of two descriptors after that.
\<close>

definition demo_srv :: "nat \<Rightarrow> bool" where
  "demo_srv p = (p = 20)"

definition demo_pool_ops :: "pool_op list" where
  "demo_pool_ops =
    [Alloc 10 7 (- 1) False (Some 100) None,
     Attach 20 8 0 5 0 (Some 200) True]"

definition demo_pool_state :: pool_state where
  "demo_pool_state = the (pool_run demo_srv (pgstrom_startup_gpu_context 2) demo_pool_ops)"

section \<open>Properties of the chunk store\<close>

lemmas demo_defs = demo_backend_def demo_snapshot_def demo_chunk_def demo_store_def
  demo_device_def demo_image_def

lemmas vis_defs = gstore_fdw_satisfies_visibility_def satisfies_visibility_xmax_def
  TransactionIdIsValid_def InvalidTransactionId_def FrozenTransactionId_def
  XidInMVCCSnapshot_def FirstNormalTransactionId_def TransactionIdIsNormal_def

subsection \<open>The visibility predicate\<close>

text \<open>
  Claim C2. Take a chunk whose insert is not marked committed and whose inserting
  transaction is the caller's own. The predicate says visible only if the command id
  of the chunk is strictly below the command id of the snapshot. If the chunk also
  carries a delete by the caller's transaction and its command id (which the delete
  has overwritten) is not below the snapshot's, the predicate says invisible. The
  third conjunct is the exact verdict for a valid insert id: visible if and only if
  the command is earlier and the caller's transaction has not deleted the chunk.
\<close>

theorem own_insert_visibility:
  assumes "\<not> xmin_commited gs_chunk"
    and "TransactionIdIsCurrentTransactionId be (xmin gs_chunk)"
  shows "(fst (gstore_fdw_satisfies_visibility be gs_chunk snapshot)
            \<longrightarrow> cid gs_chunk < curcid snapshot)
       \<and> (TransactionIdIsValid (xmax gs_chunk)
            \<and> TransactionIdIsCurrentTransactionId be (xmax gs_chunk)
            \<and> curcid snapshot \<le> cid gs_chunk
            \<longrightarrow> \<not> fst (gstore_fdw_satisfies_visibility be gs_chunk snapshot))
       \<and> (TransactionIdIsValid (xmin gs_chunk) \<longrightarrow>
            fst (gstore_fdw_satisfies_visibility be gs_chunk snapshot)
              = (cid gs_chunk < curcid snapshot
                 \<and> \<not> (TransactionIdIsValid (xmax gs_chunk)
                      \<and> TransactionIdIsCurrentTransactionId be (xmax gs_chunk))))"
  using assms
  by (auto simp: gstore_fdw_satisfies_visibility_def TransactionIdIsValid_def not_le)

theorem own_insert_visibility_witness:
  "\<not> xmin_commited demo_chunk
   \<and> TransactionIdIsCurrentTransactionId demo_backend (xmin demo_chunk)
   \<and> fst (gstore_fdw_satisfies_visibility demo_backend demo_chunk demo_snapshot)
   \<and> cid demo_chunk < curcid demo_snapshot
   \<and> \<not> fst (gstore_fdw_satisfies_visibility demo_backend
             (demo_chunk\<lparr>xmax := 100, cid := 5\<rparr>) demo_snapshot)"
  using own_insert_visibility[of demo_chunk demo_backend demo_snapshot]
    own_insert_visibility[of "demo_chunk\<lparr>xmax := 100, cid := 5\<rparr>" demo_backend demo_snapshot]
  by (simp add: demo_defs TransactionIdIsValid_def InvalidTransactionId_def)

text \<open>
  Claim C3. Take a chunk whose insert counts as committed for the snapshot and whose
  delete transaction id is set. The delete side is decided in this order. A delete
  by the caller's own transaction (one not marked committed) hides the chunk exactly
  when the chunk's command id is below the snapshot's. Otherwise a delete
  transaction the snapshot sees in flight leaves the chunk visible. Otherwise a
  delete that committed and was not marked sets the delete-committed flag and the
  chunk is invisible. Otherwise the delete did not commit: the delete transaction
  id is reset to invalid and the chunk is visible.
\<close>

theorem delete_side_visibility:
  assumes "xmin_established be gs_chunk snapshot"
    and "TransactionIdIsValid (xmax gs_chunk)"
  shows "(\<not> xmax_commited gs_chunk \<and> TransactionIdIsCurrentTransactionId be (xmax gs_chunk)
            \<longrightarrow> (\<not> fst (gstore_fdw_satisfies_visibility be gs_chunk snapshot))
                  = (cid gs_chunk < curcid snapshot))
       \<and> ((xmax_commited gs_chunk \<or> \<not> TransactionIdIsCurrentTransactionId be (xmax gs_chunk))
            \<and> XidInMVCCSnapshot (xmax gs_chunk) snapshot
            \<longrightarrow> fst (gstore_fdw_satisfies_visibility be gs_chunk snapshot))
       \<and> (\<not> xmax_commited gs_chunk \<and> \<not> TransactionIdIsCurrentTransactionId be (xmax gs_chunk)
            \<and> \<not> XidInMVCCSnapshot (xmax gs_chunk) snapshot
            \<and> TransactionIdDidCommit be (xmax gs_chunk)
            \<longrightarrow> \<not> fst (gstore_fdw_satisfies_visibility be gs_chunk snapshot)
                \<and> xmax_commited (snd (gstore_fdw_satisfies_visibility be gs_chunk snapshot)))
       \<and> (\<not> xmax_commited gs_chunk \<and> \<not> TransactionIdIsCurrentTransactionId be (xmax gs_chunk)
            \<and> \<not> XidInMVCCSnapshot (xmax gs_chunk) snapshot
            \<and> \<not> TransactionIdDidCommit be (xmax gs_chunk)
            \<longrightarrow> fst (gstore_fdw_satisfies_visibility be gs_chunk snapshot)
                \<and> xmax (snd (gstore_fdw_satisfies_visibility be gs_chunk snapshot))
                    = InvalidTransactionId)"
  using assms
  by (auto simp: gstore_fdw_satisfies_visibility_def satisfies_visibility_xmax_def
      xmin_established_def not_le split: if_splits)

theorem delete_side_visibility_witness:
  "xmin_established demo_backend (demo_chunk\<lparr>xmin := 50, xmax := 60\<rparr>) demo_snapshot
   \<and> TransactionIdIsValid (xmax (demo_chunk\<lparr>xmin := 50, xmax := 60\<rparr>))
   \<and> fst (gstore_fdw_satisfies_visibility demo_backend
            (demo_chunk\<lparr>xmin := 50, xmax := 60\<rparr>) demo_snapshot)
   \<and> xmax (snd (gstore_fdw_satisfies_visibility demo_backend
            (demo_chunk\<lparr>xmin := 50, xmax := 60\<rparr>) demo_snapshot)) = InvalidTransactionId"
  using delete_side_visibility[of demo_backend "demo_chunk\<lparr>xmin := 50, xmax := 60\<rparr>" demo_snapshot]
  by (simp add: demo_defs xmin_established_def TransactionIdIsValid_def InvalidTransactionId_def
      XidInMVCCSnapshot_def)

text \<open>
  The predicate writes hints only: run again on the descriptor it has left, it gives
  the same verdict and writes nothing more. It never touches the identity of the
  chunk, and it never sets a delete transaction id.
\<close>

lemma vis_idem:
  "gstore_fdw_satisfies_visibility be (snd (gstore_fdw_satisfies_visibility be c snap)) snap
   = gstore_fdw_satisfies_visibility be c snap"
  by (auto simp: gstore_fdw_satisfies_visibility_def satisfies_visibility_xmax_def
      TransactionIdIsValid_def)

lemma vis_keys:
  "hash (snd (gstore_fdw_satisfies_visibility be c snap)) = hash c"
  "database_oid (snd (gstore_fdw_satisfies_visibility be c snap)) = database_oid c"
  "table_oid (snd (gstore_fdw_satisfies_visibility be c snap)) = table_oid c"
  by (auto simp: gstore_fdw_satisfies_visibility_def satisfies_visibility_xmax_def)

lemma vis_xmax_invalid:
  "xmax c = InvalidTransactionId \<Longrightarrow>
   xmax (snd (gstore_fdw_satisfies_visibility be c snap)) = InvalidTransactionId"
  by (auto simp: gstore_fdw_satisfies_visibility_def satisfies_visibility_xmax_def
      TransactionIdIsValid_def)

subsection \<open>Lookup\<close>

lemma visible_for_hint:
  "visible_for be tbl snap
     (st\<lparr>gs_chunks := (gs_chunks st)(i := snd (gstore_fdw_satisfies_visibility be (gs_chunks st i) snap))\<rparr>)
   = visible_for be tbl snap st"
  by (rule ext) (simp add: visible_for_def vis_keys vis_idem)

lemma lookup_scan_result:
  "snd (lookup_scan be snap (legacy_crc32 be (MyDatabaseId be) tbl) tbl xs found st) =
    (case found of
       None \<Rightarrow> (case filter (visible_for be tbl snap st) xs of
                  [] \<Rightarrow> Inr None | [i] \<Rightarrow> Inr (Some i) | _ \<Rightarrow> Inl ConsistencyViolation)
     | Some f \<Rightarrow> (case filter (visible_for be tbl snap st) xs of
                  [] \<Rightarrow> Inr (Some f) | _ \<Rightarrow> Inl ConsistencyViolation))"
proof (induction xs arbitrary: found st)
  case Nil
  show ?case by (simp split: option.split)
next
  case (Cons i xs)
  let ?c = "gs_chunks st i"
  let ?st' = "st\<lparr>gs_chunks := (gs_chunks st)(i := snd (gstore_fdw_satisfies_visibility be ?c snap))\<rparr>"
  have hint: "visible_for be tbl snap ?st' = visible_for be tbl snap st"
    by (rule visible_for_hint)
  have vi: "visible_for be tbl snap st i =
      (hash ?c = legacy_crc32 be (MyDatabaseId be) tbl
        \<and> database_oid ?c = MyDatabaseId be \<and> table_oid ?c = tbl
        \<and> fst (gstore_fdw_satisfies_visibility be ?c snap))"
    by (simp add: visible_for_def)
  show ?case
    by (cases found)
       (auto simp: vi Let_def split_beta Cons.IH hint split: list.split)
qed

lemma lookup_scan_lists:
  "free_chunks (fst (lookup_scan be snap h tbl xs found st)) = free_chunks st"
  "active_chunks (fst (lookup_scan be snap h tbl xs found st)) = active_chunks st"
  "has_warm_chunks (fst (lookup_scan be snap h tbl xs found st)) = has_warm_chunks st"
  "preserved (fst (lookup_scan be snap h tbl xs found st)) = preserved st"
  "gstore_maps (fst (lookup_scan be snap h tbl xs found st)) = gstore_maps st"
  by (induction xs arbitrary: found st;
      simp add: Let_def split_beta split: option.split)+

lemma lookup_scan_chunks:
  "\<not> isl (snd (lookup_scan be snap (legacy_crc32 be (MyDatabaseId be) tbl) tbl xs found st)) \<Longrightarrow>
   gs_chunks (fst (lookup_scan be snap (legacy_crc32 be (MyDatabaseId be) tbl) tbl xs found st)) j =
     (if j \<in> set xs \<and> hash (gs_chunks st j) = legacy_crc32 be (MyDatabaseId be) tbl
          \<and> database_oid (gs_chunks st j) = MyDatabaseId be \<and> table_oid (gs_chunks st j) = tbl
      then snd (gstore_fdw_satisfies_visibility be (gs_chunks st j) snap)
      else gs_chunks st j)"
proof (induction xs arbitrary: found st)
  case Nil
  show ?case by simp
next
  case (Cons i xs)
  let ?h = "legacy_crc32 be (MyDatabaseId be) tbl"
  let ?c = "gs_chunks st i"
  let ?key = "hash ?c = ?h \<and> database_oid ?c = MyDatabaseId be \<and> table_oid ?c = tbl"
  let ?st' = "st\<lparr>gs_chunks := (gs_chunks st)(i := snd (gstore_fdw_satisfies_visibility be ?c snap))\<rparr>"
  show ?case
  proof (cases ?key)
    case False
    then have eq: "lookup_scan be snap ?h tbl (i # xs) found st = lookup_scan be snap ?h tbl xs found st"
      by (auto simp: Let_def)
    have "\<not> isl (snd (lookup_scan be snap ?h tbl xs found st))"
      using Cons.prems unfolding eq .
    from Cons.IH[OF this] False show ?thesis
      unfolding eq by (cases "j = i"; auto)
  next
    case key: True
    obtain found' where
      eq: "lookup_scan be snap ?h tbl (i # xs) found st = lookup_scan be snap ?h tbl xs found' ?st'"
    proof (cases "fst (gstore_fdw_satisfies_visibility be ?c snap)")
      case False
      with key have "lookup_scan be snap ?h tbl (i # xs) found st
          = lookup_scan be snap ?h tbl xs found ?st'"
        by (simp add: Let_def split_beta)
      then show ?thesis by (rule that)
    next
      case True
      show ?thesis
      proof (cases found)
        case None
        with key True have "lookup_scan be snap ?h tbl (i # xs) found st
          = lookup_scan be snap ?h tbl xs (Some i) ?st'"
          by (simp add: Let_def split_beta)
        then show ?thesis by (rule that)
      next
        case (Some f)
        with key True have "isl (snd (lookup_scan be snap ?h tbl (i # xs) found st))"
          by (simp add: Let_def split_beta)
        with Cons.prems show ?thesis by simp
      qed
    qed
    have "\<not> isl (snd (lookup_scan be snap ?h tbl xs found' ?st'))"
      using Cons.prems unfolding eq .
    from Cons.IH[OF this] key show ?thesis
      unfolding eq by (cases "j = i"; simp add: vis_keys vis_idem)
  qed
qed

lemma filter_single_mem: "filter P xs = [i] \<Longrightarrow> i \<in> set xs \<and> P i"
proof -
  assume "filter P xs = [i]"
  then have "i \<in> set (filter P xs)" by simp
  then show ?thesis by simp
qed

lemma lookup_found_chunk:
  assumes "visible_chunks be tbl snap st = [i]"
  shows "gs_chunks (fst (gstore_fdw_lookup_chunk be tbl snap st)) i
         = snd (gstore_fdw_satisfies_visibility be (gs_chunks st i) snap)"
proof -
  let ?h = "legacy_crc32 be (MyDatabaseId be) tbl"
  let ?xs = "active_chunks st (unat ?h mod GSTORE_CHUNK_HASH_NSLOTS)"
  from assms have m: "i \<in> set ?xs \<and> visible_for be tbl snap st i"
    unfolding visible_chunks_def by (rule filter_single_mem)
  have r: "snd (lookup_scan be snap ?h tbl ?xs None st) = Inr (Some i)"
    using assms by (simp add: lookup_scan_result visible_chunks_def)
  show ?thesis
    using m r lookup_scan_chunks[of be snap tbl ?xs None st i]
    by (simp add: gstore_fdw_lookup_chunk_def gstore_fdw_lookup_chunk_nolock_def Let_def
        visible_for_def)
qed

lemma lookup_chunk_result:
  "snd (gstore_fdw_lookup_chunk be tbl snapshot st) =
    (case visible_chunks be tbl snapshot st of
       [] \<Rightarrow> Inr None
     | [i] \<Rightarrow> Inr (Some i)
     | _ \<Rightarrow> Inl ConsistencyViolation)"
  by (simp add: gstore_fdw_lookup_chunk_def gstore_fdw_lookup_chunk_nolock_def
      visible_chunks_def Let_def lookup_scan_result)

lemma lookup_chunk_lists:
  "free_chunks (fst (gstore_fdw_lookup_chunk be tbl snap st)) = free_chunks st"
  "active_chunks (fst (gstore_fdw_lookup_chunk be tbl snap st)) = active_chunks st"
  "has_warm_chunks (fst (gstore_fdw_lookup_chunk be tbl snap st)) = has_warm_chunks st"
  "preserved (fst (gstore_fdw_lookup_chunk be tbl snap st)) = preserved st"
  by (simp_all add: gstore_fdw_lookup_chunk_def gstore_fdw_lookup_chunk_nolock_def Let_def
      lookup_scan_lists)

text \<open>
  Claim C1. For every table and snapshot, the lookup scans the bucket of the
  (database, table) pair and its result is decided by the descriptors of the table
  in that bucket that pass the visibility predicate: none gives no chunk, exactly
  one gives that descriptor, and more than one makes the lookup raise the
  consistency error instead of returning.
\<close>

theorem lookup_single_visible:
  "snd (gstore_fdw_lookup_chunk_nolock be tbl snapshot st) =
    (case visible_chunks be tbl snapshot st of
       [] \<Rightarrow> Inr None
     | [i] \<Rightarrow> Inr (Some i)
     | _ \<Rightarrow> Inl ConsistencyViolation)"
  by (simp add: gstore_fdw_lookup_chunk_nolock_def visible_chunks_def Let_def lookup_scan_result)

theorem lookup_single_visible_witness:
  "snd (gstore_fdw_lookup_chunk_nolock demo_backend 7 demo_snapshot demo_store) = Inr (Some 0)"
  using lookup_single_visible[of demo_backend 7 demo_snapshot demo_store]
  by (simp add: visible_chunks_def visible_for_def demo_defs vis_defs GSTORE_CHUNK_HASH_NSLOTS_def)

subsection \<open>Whole-chunk delete\<close>

text \<open>
  Claim C10. The delete step runs without a guard on the result of the lookup. With
  no visible chunk of the table the step uses a null pointer; with one visible
  chunk that carries a delete transaction id when the assertion looks at it (that
  is, after the lookup has written its hints) only the assertion stops it; it
  succeeds, stamping the chunk with the caller's transaction and command ids,
  exactly when one visible chunk exists and carries no delete transaction id; more
  than one visible chunk is the error of the lookup.
\<close>

theorem direct_delete_precondition:
  "(case visible_chunks be tbl snapshot st of
      [] \<Rightarrow> snd (gstoreIterateDirectModify be tbl snapshot st) = Inl NullPointerDereference
    | [i] \<Rightarrow>
        (if TransactionIdIsValid
              (xmax (snd (gstore_fdw_satisfies_visibility be (gs_chunks st i) snapshot)))
         then snd (gstoreIterateDirectModify be tbl snapshot st) = Inl AssertionFailed
         else snd (gstoreIterateDirectModify be tbl snapshot st)
                = Inr (kds_nitems (gs_chunks st i))
            \<and> xmax (gs_chunks (fst (gstoreIterateDirectModify be tbl snapshot st)) i)
                = GetCurrentTransactionId be
            \<and> cid (gs_chunks (fst (gstoreIterateDirectModify be tbl snapshot st)) i)
                = GetCurrentCommandId be)
    | _ \<Rightarrow> snd (gstoreIterateDirectModify be tbl snapshot st) = Inl ConsistencyViolation)"
proof (cases "visible_chunks be tbl snapshot st")
  case Nil
  with lookup_chunk_result[of be tbl snapshot st] show ?thesis
    by (simp add: gstoreIterateDirectModify_def split_beta)
next
  case (Cons i rest)
  show ?thesis
  proof (cases rest)
    case Nil
    with Cons have one: "visible_chunks be tbl snapshot st = [i]" by simp
    have nit: "kds_nitems (snd (gstore_fdw_satisfies_visibility be c snapshot)) = kds_nitems c" for c
      by (auto simp: gstore_fdw_satisfies_visibility_def satisfies_visibility_xmax_def)
    from one lookup_chunk_result[of be tbl snapshot st] lookup_found_chunk[OF one]
    show ?thesis
      by (simp add: gstoreIterateDirectModify_def split_beta Let_def nit)
  next
    case (Cons j more)
    with \<open>visible_chunks be tbl snapshot st = i # rest\<close>
      lookup_chunk_result[of be tbl snapshot st]
    show ?thesis
      by (simp add: gstoreIterateDirectModify_def split_beta)
  qed
qed

theorem direct_delete_precondition_witness:
  "snd (gstoreIterateDirectModify demo_backend 7 demo_snapshot demo_store) = Inr 3
   \<and> snd (gstoreIterateDirectModify demo_backend 9 demo_snapshot demo_store)
       = Inl NullPointerDereference"
  using direct_delete_precondition[of demo_backend 7 demo_snapshot demo_store]
    direct_delete_precondition[of demo_backend 9 demo_snapshot demo_store]
  by (simp add: visible_chunks_def visible_for_def demo_defs vis_defs GSTORE_CHUNK_HASH_NSLOTS_def)

subsection \<open>Insert\<close>

text \<open>
  Claim C6. Beginning a write fails with the feature-not-supported error when the
  lookup finds a chunk of the table visible under the caller's snapshot; it returns
  a load state only when no chunk is visible; and whatever the outcome, the free
  list and the buckets are as before, so no descriptor has been registered. (More
  than one visible chunk is the error of the lookup itself.)
\<close>

theorem insert_into_nonempty_unsupported:
  "snd (gstoreBeginForeignModify be gcontext tbl snapshot st) =
     (case visible_chunks be tbl snapshot st of
        [] \<Rightarrow> Inr \<lparr>ls_gcontext = gcontext, ls_nrooms = 10000, ls_nitems = 0\<rparr>
      | [i] \<Rightarrow> Inl FeatureNotSupported
      | _ \<Rightarrow> Inl ConsistencyViolation)
   \<and> free_chunks (fst (gstoreBeginForeignModify be gcontext tbl snapshot st)) = free_chunks st
   \<and> active_chunks (fst (gstoreBeginForeignModify be gcontext tbl snapshot st)) = active_chunks st"
proof -
  have "fst (gstoreBeginForeignModify be gcontext tbl snapshot st)
        = fst (gstore_fdw_lookup_chunk be tbl snapshot st)"
    by (simp add: gstoreBeginForeignModify_def split_beta split: sum.split option.split)
  moreover have "snd (gstoreBeginForeignModify be gcontext tbl snapshot st) =
     (case visible_chunks be tbl snapshot st of
        [] \<Rightarrow> Inr \<lparr>ls_gcontext = gcontext, ls_nrooms = 10000, ls_nitems = 0\<rparr>
      | [i] \<Rightarrow> Inl FeatureNotSupported
      | _ \<Rightarrow> Inl ConsistencyViolation)"
    using lookup_chunk_result[of be tbl snapshot st]
    by (simp add: gstoreBeginForeignModify_def split_beta split: list.split)
  ultimately show ?thesis by (simp add: lookup_chunk_lists)
qed

theorem insert_into_nonempty_unsupported_witness:
  "snd (gstoreBeginForeignModify demo_backend None 7 demo_snapshot demo_store)
     = Inl FeatureNotSupported
   \<and> free_chunks (fst (gstoreBeginForeignModify demo_backend None 7 demo_snapshot demo_store))
     = [1, 2]"
  using insert_into_nonempty_unsupported[of demo_backend None 7 demo_snapshot demo_store]
  by (simp add: visible_chunks_def visible_for_def demo_defs vis_defs GSTORE_CHUNK_HASH_NSLOTS_def)

text \<open>
  Claim C7. A write-out that finds the free list of descriptors empty fails. When
  the device mirror had been loaded (or the table is not pinned) the error is the
  insufficient-resources error, the device pointer opened for the copy is closed
  and the CUDA context stack is as deep as before. In every case the preserved
  device memory allocated for the mirror has been freed again, and the free list,
  the buckets and the descriptors are unchanged.
\<close>

theorem writeout_pool_exhausted:
  assumes "free_chunks st = []"
  shows "isl (snd (gstore_fdw_writeout_pgstrom be dev gcontext tbl img st))
    \<and> ((\<forall>d. gcontext = Some d \<longrightarrow> \<not> isl (snd (gstore_fdw_load_gpu_preserved dev d st)))
        \<longrightarrow> snd (gstore_fdw_writeout_pgstrom be dev gcontext tbl img st) = Inl InsufficientResources
          \<and> ipc_opened (fst (gstore_fdw_writeout_pgstrom be dev gcontext tbl img st)) = ipc_opened st
          \<and> cuda_ctx_depth (fst (gstore_fdw_writeout_pgstrom be dev gcontext tbl img st))
              = cuda_ctx_depth st)
    \<and> preserved (fst (gstore_fdw_writeout_pgstrom be dev gcontext tbl img st)) = preserved st
    \<and> free_chunks (fst (gstore_fdw_writeout_pgstrom be dev gcontext tbl img st)) = free_chunks st
    \<and> active_chunks (fst (gstore_fdw_writeout_pgstrom be dev gcontext tbl img st)) = active_chunks st
    \<and> gs_chunks (fst (gstore_fdw_writeout_pgstrom be dev gcontext tbl img st)) = gs_chunks st"
  using assms
  by (cases gcontext)
     (auto simp: gstore_fdw_writeout_pgstrom_def gstore_fdw_load_gpu_preserved_def
        load_gpu_preserved_try_def gpuMemFreePreserved_def Let_def)

theorem writeout_pool_exhausted_witness:
  "free_chunks (demo_store\<lparr>free_chunks := []\<rparr>) = []
   \<and> snd (gstore_fdw_writeout_pgstrom demo_backend demo_device (Some 0) 7 demo_image
            (demo_store\<lparr>free_chunks := []\<rparr>)) = Inl InsufficientResources
   \<and> preserved (fst (gstore_fdw_writeout_pgstrom demo_backend demo_device (Some 0) 7 demo_image
            (demo_store\<lparr>free_chunks := []\<rparr>))) = []"
  using writeout_pool_exhausted[of "demo_store\<lparr>free_chunks := []\<rparr>" demo_backend demo_device
      "Some 0" 7 demo_image]
  by (simp add: demo_defs gstore_fdw_load_gpu_preserved_def load_gpu_preserved_try_def)

subsection \<open>The transaction callback\<close>

lemma release_lists:
  "free_chunks (gstore_fdw_release_chunk i st) = i # removeAll i (free_chunks st)"
  "active_chunks (gstore_fdw_release_chunk i st) k = removeAll i (active_chunks st k)"
  "has_warm_chunks (gstore_fdw_release_chunk i st) = has_warm_chunks st"
  by (simp_all add: gstore_fdw_release_chunk_def gpuMemFreePreserved_def Let_def)

lemma release_chunks:
  "gs_chunks (gstore_fdw_release_chunk i st) = (gs_chunks st)(i := (gs_chunks st i)\<lparr>dsm_handle := - 1\<rparr>)"
  by (simp add: gstore_fdw_release_chunk_def gpuMemFreePreserved_def Let_def)

lemma lookup_result_in_bucket:
  assumes "snd (gstore_fdw_lookup_chunk be tbl snap st) = Inr (Some i)"
  shows "\<exists>k. i \<in> set (active_chunks st k)"
proof -
  from assms lookup_chunk_result[of be tbl snap st]
  have "visible_chunks be tbl snap st = [i]"
    by (auto split: list.splits)
  then have "i \<in> set (active_chunks st
      (unat (legacy_crc32 be (MyDatabaseId be) tbl) mod GSTORE_CHUNK_HASH_NSLOTS))"
    unfolding visible_chunks_def by (blast dest: filter_single_mem)
  then show ?thesis ..
qed

lemma xact_end_xmax_fields:
  "xmin (xact_end_xmax be ic c) = xmin c"
  "xmin_commited (xact_end_xmax be ic c) = xmin_commited c"
  by (simp_all add: xact_end_xmax_def)

lemma xact_end_xmin_fields:
  "xmin (xact_end_xmin be c) = xmin c"
  "xmax (xact_end_xmin be c) = xmax c"
  "xmax_commited (xact_end_xmin be c) = xmax_commited c"
  by (simp_all add: xact_end_xmin_def)

lemma reclaim_other:
  "j \<noteq> i \<Longrightarrow> gs_chunks (snd (xact_reclaim_chunk be i old c st)) j = gs_chunks st j"
  by (simp add: xact_reclaim_chunk_def Let_def release_chunks)

lemma perchunk_other:
  "j \<noteq> i \<Longrightarrow> gs_chunks (snd (gstoreOnXactCallbackPerChunk be ic i old st)) j = gs_chunks st j"
  by (simp add: gstoreOnXactCallbackPerChunk_def Let_def release_chunks reclaim_other)


lemma reclaim_at:
  "xmin_commited (gs_chunks (snd (xact_reclaim_chunk be i old c st)) i) = xmin_commited c"
  "xmax (gs_chunks (snd (xact_reclaim_chunk be i old c st)) i) = xmax c"
  "xmax_commited (gs_chunks (snd (xact_reclaim_chunk be i old c st)) i) = xmax_commited c"
  by (simp_all add: xact_reclaim_chunk_def Let_def release_chunks)

text \<open>
  Claim C4. Take a chunk whose insert transaction id belongs to the transaction that
  is ending. On commit the callback leaves the chunk marked insert-committed. On
  abort it reports that the chunk needs no later pass, the chunk is at the head of
  the free list and in no bucket, and so no lookup, for any backend, table and
  snapshot, returns it.
\<close>

theorem reclaim_own_insert:
  assumes "TransactionIdIsCurrentTransactionId be (xmin (gs_chunks st i))"
  shows "xmin_commited (gs_chunks (snd (gstoreOnXactCallbackPerChunk be True i oldestXmin st)) i)
    \<and> \<not> fst (gstoreOnXactCallbackPerChunk be False i oldestXmin st)
    \<and> free_chunks (snd (gstoreOnXactCallbackPerChunk be False i oldestXmin st))
        = i # removeAll i (free_chunks st)
    \<and> (\<forall>k. i \<notin> set (active_chunks (snd (gstoreOnXactCallbackPerChunk be False i oldestXmin st)) k))
    \<and> (\<forall>be' tbl snapshot.
          snd (gstore_fdw_lookup_chunk be' tbl snapshot
                (snd (gstoreOnXactCallbackPerChunk be False i oldestXmin st))) \<noteq> Inr (Some i))"
proof -
  let ?st' = "snd (gstoreOnXactCallbackPerChunk be False i oldestXmin st)"
  have commit: "xmin_commited (gs_chunks (snd (gstoreOnXactCallbackPerChunk be True i oldestXmin st)) i)"
    using assms
    by (simp add: gstoreOnXactCallbackPerChunk_def reclaim_at(1) xact_end_xmin_def
        xact_end_xmax_fields)
  have abort: "gstoreOnXactCallbackPerChunk be False i oldestXmin st =
      (False, gstore_fdw_release_chunk i
        (st\<lparr>gs_chunks := (gs_chunks st)
           (i := xact_end_xmax be False (gs_chunks st i))\<rparr>))"
    using assms by (simp add: gstoreOnXactCallbackPerChunk_def xact_end_xmax_fields)
  have nv: "\<not> fst (gstoreOnXactCallbackPerChunk be False i oldestXmin st)"
    by (simp add: abort)
  have fl: "free_chunks ?st' = i # removeAll i (free_chunks st)"
    by (simp add: abort release_lists)
  have act: "\<forall>k. i \<notin> set (active_chunks ?st' k)"
    by (simp add: abort release_lists)
  have "snd (gstore_fdw_lookup_chunk be' tbl snapshot ?st') \<noteq> Inr (Some i)" for be' tbl snapshot
    using lookup_result_in_bucket[of be' tbl snapshot ?st' i] act by blast
  with commit nv fl act show ?thesis by blast
qed

theorem reclaim_own_insert_witness:
  "TransactionIdIsCurrentTransactionId demo_backend (xmin (gs_chunks demo_store 0))
   \<and> xmin_commited (gs_chunks (snd (gstoreOnXactCallbackPerChunk demo_backend True 0 90 demo_store)) 0)
   \<and> \<not> fst (gstoreOnXactCallbackPerChunk demo_backend False 0 90 demo_store)
   \<and> free_chunks (snd (gstoreOnXactCallbackPerChunk demo_backend False 0 90 demo_store)) = [0, 1, 2]
   \<and> snd (gstore_fdw_lookup_chunk demo_backend 7 demo_snapshot
            (snd (gstoreOnXactCallbackPerChunk demo_backend False 0 90 demo_store))) \<noteq> Inr (Some 0)"
  using reclaim_own_insert[of demo_backend demo_store 0 90]
  by (simp add: demo_defs)


lemma reclaim_fst:
  "fst (xact_reclaim_chunk be i old c st) =
    (if TransactionIdIsValid (xmax c)
     then \<not> xmax_commited c \<or> \<not> TransactionIdPrecedes be (xmax c) old
     else TransactionIdIsNormal (xmin c)
          \<and> (\<not> xmin_commited c \<or> \<not> TransactionIdPrecedes be (xmin c) old))"
  by (simp add: xact_reclaim_chunk_def Let_def)

lemma reclaim_chunk_after:
  "gs_chunks (snd (xact_reclaim_chunk be i old c st)) i =
    (if TransactionIdIsValid (xmax c)
     then (if xmax_commited c \<and> TransactionIdPrecedes be (xmax c) old
           then c\<lparr>dsm_handle := - 1\<rparr> else c)
     else if TransactionIdIsNormal (xmin c)
     then (if xmin_commited c \<and> TransactionIdPrecedes be (xmin c) old
           then c\<lparr>xmin := FrozenTransactionId\<rparr> else c)
     else if \<not> TransactionIdIsValid (xmin c) then c\<lparr>dsm_handle := - 1\<rparr> else c)"
  by (simp add: xact_reclaim_chunk_def Let_def release_chunks)

lemma perchunk_fst:
  "fst (gstoreOnXactCallbackPerChunk be ic i old st) =
    (let c1 = xact_end_xmax be ic (gs_chunks st i) in
     \<not> (TransactionIdIsCurrentTransactionId be (xmin c1) \<and> \<not> ic)
     \<and> fst (xact_reclaim_chunk be i old (xact_end_xmin be c1) st))"
  by (auto simp: gstoreOnXactCallbackPerChunk_def Let_def)

lemma perchunk_chunk_after:
  "gs_chunks (snd (gstoreOnXactCallbackPerChunk be ic i old st)) i =
    (let c1 = xact_end_xmax be ic (gs_chunks st i) in
     if TransactionIdIsCurrentTransactionId be (xmin c1) \<and> \<not> ic
     then c1\<lparr>dsm_handle := - 1\<rparr>
     else gs_chunks (snd (xact_reclaim_chunk be i old (xact_end_xmin be c1) st)) i)"
  by (auto simp: gstoreOnXactCallbackPerChunk_def Let_def release_chunks)

lemma verdict_idem:
  "fst (gstoreOnXactCallbackPerChunk be ic i old (snd (gstoreOnXactCallbackPerChunk be ic i old st)))
   = fst (gstoreOnXactCallbackPerChunk be ic i old st)"
  unfolding perchunk_fst[of be ic i old "snd (gstoreOnXactCallbackPerChunk be ic i old st)"]
    perchunk_chunk_after perchunk_fst[of be ic i old st] reclaim_fst reclaim_chunk_after Let_def
  by (auto simp: xact_end_xmax_def xact_end_xmin_def TransactionIdIsValid_def
      TransactionIdIsNormal_def InvalidTransactionId_def FrozenTransactionId_def
      FirstNormalTransactionId_def)

lemma verdict_cong:
  "gs_chunks st' i = gs_chunks st i \<Longrightarrow>
   fst (gstoreOnXactCallbackPerChunk be ic i old st') = fst (gstoreOnXactCallbackPerChunk be ic i old st)"
  by (simp add: perchunk_fst reclaim_fst)

lemma reclaim_active:
  "active_chunks (snd (xact_reclaim_chunk be i old c st)) = active_chunks st
   \<or> (\<not> fst (xact_reclaim_chunk be i old c st)
      \<and> active_chunks (snd (xact_reclaim_chunk be i old c st))
          = (\<lambda>k. removeAll i (active_chunks st k)))"
  by (simp add: xact_reclaim_chunk_def Let_def release_lists fun_eq_iff)

lemma perchunk_active:
  "active_chunks (snd (gstoreOnXactCallbackPerChunk be ic i old st)) = active_chunks st
   \<or> (\<not> fst (gstoreOnXactCallbackPerChunk be ic i old st)
      \<and> active_chunks (snd (gstoreOnXactCallbackPerChunk be ic i old st))
          = (\<lambda>k. removeAll i (active_chunks st k)))"
proof (cases "TransactionIdIsCurrentTransactionId be (xmin (xact_end_xmax be ic (gs_chunks st i))) \<and> \<not> ic")
  case True
  then have "gstoreOnXactCallbackPerChunk be ic i old st
      = (False, gstore_fdw_release_chunk i
          (st\<lparr>gs_chunks := (gs_chunks st)(i := xact_end_xmax be ic (gs_chunks st i))\<rparr>))"
    by (auto simp: gstoreOnXactCallbackPerChunk_def Let_def)
  then show ?thesis
    by (simp add: release_lists fun_eq_iff)
next
  case False
  then have "gstoreOnXactCallbackPerChunk be ic i old st
      = xact_reclaim_chunk be i old (xact_end_xmin be (xact_end_xmax be ic (gs_chunks st i))) st"
    by (auto simp: gstoreOnXactCallbackPerChunk_def Let_def)
  then show ?thesis by (simp only: reclaim_active)
qed

lemma reclaim_warm:
  "has_warm_chunks (snd (xact_reclaim_chunk be i old c st)) = has_warm_chunks st"
  by (simp add: xact_reclaim_chunk_def Let_def release_lists)

lemma perchunk_warm:
  "has_warm_chunks (snd (gstoreOnXactCallbackPerChunk be ic i old st)) = has_warm_chunks st"
  by (simp add: gstoreOnXactCallbackPerChunk_def Let_def release_lists reclaim_warm)

lemma scan_rel_refl: "xact_scan_rel be ic old st st"
  by (simp add: xact_scan_rel_def)

lemma scan_rel_trans:
  assumes a: "xact_scan_rel be ic old st st1" and b: "xact_scan_rel be ic old st1 st2"
  shows "xact_scan_rel be ic old st st2"
proof -
  from a have a1: "xact_keeps be ic old st1 = xact_keeps be ic old st"
    and a2: "has_warm_chunks st1 = has_warm_chunks st"
    and a3: "\<And>k. set (active_chunks st1 k) \<subseteq> set (active_chunks st k)"
    and a4: "\<And>k j. j \<in> set (active_chunks st k) \<Longrightarrow> xact_keeps be ic old st j
               \<Longrightarrow> j \<in> set (active_chunks st1 k)"
    by (simp_all add: xact_scan_rel_def)
  from b have b1: "xact_keeps be ic old st2 = xact_keeps be ic old st1"
    and b2: "has_warm_chunks st2 = has_warm_chunks st1"
    and b3: "\<And>k. set (active_chunks st2 k) \<subseteq> set (active_chunks st1 k)"
    and b4: "\<And>k j. j \<in> set (active_chunks st1 k) \<Longrightarrow> xact_keeps be ic old st1 j
               \<Longrightarrow> j \<in> set (active_chunks st2 k)"
    by (simp_all add: xact_scan_rel_def)
  have c3: "set (active_chunks st2 k) \<subseteq> set (active_chunks st k)" for k
    using a3[of k] b3[of k] by (rule order_trans[rotated])
  have c4: "j \<in> set (active_chunks st2 k)"
    if "j \<in> set (active_chunks st k)" "xact_keeps be ic old st j" for k j
  proof -
    from that have "j \<in> set (active_chunks st1 k)" by (rule a4)
    moreover from that(2) have "xact_keeps be ic old st1 j" by (simp only: a1)
    ultimately show ?thesis by (rule b4)
  qed
  show ?thesis
    unfolding xact_scan_rel_def
    using c3 c4 by (simp add: a1 a2 b1 b2)
qed

lemma scan_rel_step:
  "xact_scan_rel be ic old st (snd (gstoreOnXactCallbackPerChunk be ic i old st))"
proof -
  let ?st' = "snd (gstoreOnXactCallbackPerChunk be ic i old st)"
  have keeps: "xact_keeps be ic old ?st' j = xact_keeps be ic old st j" for j
  proof (cases "j = i")
    case True
    then show ?thesis by (simp add: xact_keeps_def verdict_idem)
  next
    case False
    then show ?thesis
      unfolding xact_keeps_def by (intro verdict_cong perchunk_other)
  qed
  have act: "active_chunks ?st' = active_chunks st
      \<or> (\<not> xact_keeps be ic old st i \<and> active_chunks ?st' = (\<lambda>k. removeAll i (active_chunks st k)))"
    using perchunk_active[of be ic i old st] unfolding xact_keeps_def .
  from act show ?thesis
    unfolding xact_scan_rel_def
    by (auto simp: keeps perchunk_warm fun_eq_iff)
qed

lemma scan_bucket_rel:
  "xact_scan_rel be ic old st (snd (xact_scan_bucket be ic old xs warm st))"
proof (induction xs arbitrary: warm st)
  case Nil
  show ?case by (simp add: scan_rel_refl)
next
  case (Cons i xs)
  show ?case
    using scan_rel_trans[OF scan_rel_step[of be ic old st i]
        Cons.IH[of "snd (gstoreOnXactCallbackPerChunk be ic i old st)"]]
    by (simp add: split_beta)
qed

lemma scan_bucket_warm:
  "fst (xact_scan_bucket be ic old xs warm st) =
     (warm \<or> (\<exists>j\<in>set xs. xact_keeps be ic old st j))"
proof (induction xs arbitrary: warm st)
  case Nil
  show ?case by simp
next
  case (Cons i xs)
  have "xact_keeps be ic old (snd (gstoreOnXactCallbackPerChunk be ic i old st))
        = xact_keeps be ic old st"
    using scan_rel_step[of be ic old st i] by (simp add: xact_scan_rel_def)
  then show ?case
    by (auto simp: split_beta Cons.IH xact_keeps_def[of be ic old st i])
qed

lemma scan_slots_rel:
  "xact_scan_rel be ic old st (snd (xact_scan_slots be ic old ks warm st))"
proof (induction ks arbitrary: warm st)
  case Nil
  show ?case by (simp add: scan_rel_refl)
next
  case (Cons k ks)
  show ?case
    using scan_rel_trans[OF scan_bucket_rel[of be ic old st "active_chunks st k" warm]
        Cons.IH[of "snd (xact_scan_bucket be ic old (active_chunks st k) warm st)"]]
    by (simp add: split_beta)
qed

lemma scan_slots_warm:
  "fst (xact_scan_slots be ic old ks warm st) =
     (warm \<or> (\<exists>k\<in>set ks. \<exists>j\<in>set (active_chunks st k). xact_keeps be ic old st j))"
proof (induction ks arbitrary: warm st)
  case Nil
  show ?case by simp
next
  case (Cons k ks)
  let ?st1 = "snd (xact_scan_bucket be ic old (active_chunks st k) warm st)"
  have rel: "xact_scan_rel be ic old st ?st1" by (rule scan_bucket_rel)
  have same: "(\<exists>j\<in>set (active_chunks ?st1 k'). xact_keeps be ic old ?st1 j)
      = (\<exists>j\<in>set (active_chunks st k'). xact_keeps be ic old st j)" for k'
    using rel unfolding xact_scan_rel_def by (auto simp: subset_iff)
  show ?case
    by (auto simp: split_beta Cons.IH scan_bucket_warm same)
qed

lemma callback_warm:
  assumes "event \<noteq> XACT_EVENT_OTHER" and "has_warm_chunks st \<noteq> 0"
  shows "has_warm_chunks (gstoreXactCallback be event oldestXmin st) =
      (if \<exists>k<GSTORE_CHUNK_HASH_NSLOTS. \<exists>j\<in>set (active_chunks st k).
            xact_keeps be (event = XACT_EVENT_COMMIT) oldestXmin st j
       then has_warm_chunks st else 0)"
proof -
  let ?r = "xact_scan_slots be (event = XACT_EVENT_COMMIT) oldestXmin
              [0 ..< GSTORE_CHUNK_HASH_NSLOTS] False st"
  have w: "has_warm_chunks (snd ?r) = has_warm_chunks st"
    using scan_slots_rel[of be "event = XACT_EVENT_COMMIT" oldestXmin st
        "[0 ..< GSTORE_CHUNK_HASH_NSLOTS]" False]
    by (simp add: xact_scan_rel_def)
  have f: "fst ?r = (\<exists>k<GSTORE_CHUNK_HASH_NSLOTS. \<exists>j\<in>set (active_chunks st k).
            xact_keeps be (event = XACT_EVENT_COMMIT) oldestXmin st j)"
    by (simp add: scan_slots_warm Bex_def)
  from assms show ?thesis
    unfolding gstoreXactCallback_def
    by (simp add: split_beta f w)
qed

text \<open>
  Claim C5, as amended. Take a chunk with no delete transaction id and a normal
  insert transaction id that does not belong to the transaction that is ending.
  One call of the per-chunk callback keeps the chunk (reports that it needs a later
  pass) if the insert is not marked committed, or is committed and does not precede
  the oldest active xmin; otherwise it sets the insert transaction id to the frozen
  id. In both cases the chunk stays linked where it was. A pass of the callback
  that starts with the flag set leaves the flag as it is when some chunk of some
  bucket needs attention, and clears it only when none does.
\<close>

theorem reclaim_keep_or_freeze:
  assumes "\<not> TransactionIdIsValid (xmax (gs_chunks st i))"
    and "TransactionIdIsNormal (xmin (gs_chunks st i))"
    and "\<not> TransactionIdIsCurrentTransactionId be (xmin (gs_chunks st i))"
  shows "fst (gstoreOnXactCallbackPerChunk be is_commit i oldestXmin st)
         = (\<not> xmin_commited (gs_chunks st i)
            \<or> \<not> TransactionIdPrecedes be (xmin (gs_chunks st i)) oldestXmin)
    \<and> xmin (gs_chunks (snd (gstoreOnXactCallbackPerChunk be is_commit i oldestXmin st)) i)
         = (if fst (gstoreOnXactCallbackPerChunk be is_commit i oldestXmin st)
            then xmin (gs_chunks st i) else FrozenTransactionId)
    \<and> free_chunks (snd (gstoreOnXactCallbackPerChunk be is_commit i oldestXmin st)) = free_chunks st
    \<and> active_chunks (snd (gstoreOnXactCallbackPerChunk be is_commit i oldestXmin st)) = active_chunks st
    \<and> (event \<noteq> XACT_EVENT_OTHER \<and> has_warm_chunks st \<noteq> 0 \<longrightarrow>
         has_warm_chunks (gstoreXactCallback be event oldestXmin st) =
           (if \<exists>k<GSTORE_CHUNK_HASH_NSLOTS. \<exists>j\<in>set (active_chunks st k).
                 xact_keeps be (event = XACT_EVENT_COMMIT) oldestXmin st j
            then has_warm_chunks st else 0))"
proof -
  let ?c = "gs_chunks st i"
  let ?c2 = "xact_end_xmin be (xact_end_xmax be is_commit ?c)"
  have c2: "\<not> TransactionIdIsValid (xmax ?c2)" "xmin ?c2 = xmin ?c"
    "xmin_commited ?c2 = xmin_commited ?c"
    using assms
    by (auto simp: xact_end_xmin_def xact_end_xmax_def TransactionIdIsValid_def)
  have eq: "gstoreOnXactCallbackPerChunk be is_commit i oldestXmin st
      = xact_reclaim_chunk be i oldestXmin ?c2 st"
    using assms(3) by (simp add: gstoreOnXactCallbackPerChunk_def xact_end_xmax_fields)
  have r: "xact_reclaim_chunk be i oldestXmin ?c2 st =
      (if \<not> xmin_commited ?c \<or> \<not> TransactionIdPrecedes be (xmin ?c) oldestXmin
       then (True, st\<lparr>gs_chunks := (gs_chunks st)(i := ?c2)\<rparr>)
       else (False, st\<lparr>gs_chunks := (gs_chunks st)(i := ?c2\<lparr>xmin := FrozenTransactionId\<rparr>)\<rparr>))"
    using c2 assms(2) by (simp add: xact_reclaim_chunk_def Let_def)
  show ?thesis
    unfolding eq r using c2(2) callback_warm[of event st be oldestXmin]
    by simp
qed

theorem reclaim_keep_or_freeze_witness:
  "\<not> TransactionIdIsValid (xmax (gs_chunks demo_old_store 0))
   \<and> TransactionIdIsNormal (xmin (gs_chunks demo_old_store 0))
   \<and> \<not> TransactionIdIsCurrentTransactionId demo_backend (xmin (gs_chunks demo_old_store 0))
   \<and> \<not> fst (gstoreOnXactCallbackPerChunk demo_backend True 0 90 demo_old_store)
   \<and> xmin (gs_chunks (snd (gstoreOnXactCallbackPerChunk demo_backend True 0 90 demo_old_store)) 0)
       = FrozenTransactionId
   \<and> fst (gstoreOnXactCallbackPerChunk demo_backend True 0 40 demo_old_store)
   \<and> has_warm_chunks (gstoreXactCallback demo_backend XACT_EVENT_COMMIT 40 demo_old_store) = 1"
  using reclaim_keep_or_freeze[of demo_old_store 0 demo_backend True 90 XACT_EVENT_COMMIT]
    reclaim_keep_or_freeze[of demo_old_store 0 demo_backend True 40 XACT_EVENT_COMMIT]
  by (auto simp: demo_defs demo_old_store_def demo_old_chunk_def TransactionIdIsValid_def
      InvalidTransactionId_def TransactionIdIsNormal_def FirstNormalTransactionId_def
      GSTORE_CHUNK_HASH_NSLOTS_def xact_keeps_def split: if_splits)

text \<open>
  The claim as stated, for every chunk with no delete id and a normal insert id,
  fails for the chunk of the transaction that aborts: its insert is not committed,
  yet the callback does not keep it and does not freeze it; it releases it.
\<close>

theorem reclaim_own_abort_counterexample:
  "\<not> TransactionIdIsValid (xmax (gs_chunks demo_store 0))
   \<and> TransactionIdIsNormal (xmin (gs_chunks demo_store 0))
   \<and> \<not> xmin_commited (gs_chunks demo_store 0)
   \<and> \<not> fst (gstoreOnXactCallbackPerChunk demo_backend False 0 90 demo_store)
   \<and> xmin (gs_chunks (snd (gstoreOnXactCallbackPerChunk demo_backend False 0 90 demo_store)) 0)
       \<noteq> FrozenTransactionId
   \<and> free_chunks (snd (gstoreOnXactCallbackPerChunk demo_backend False 0 90 demo_store)) = [0, 1, 2]"
  by (simp add: demo_defs gstoreOnXactCallbackPerChunk_def xact_end_xmax_def release_lists Let_def
      release_chunks TransactionIdIsValid_def InvalidTransactionId_def TransactionIdIsNormal_def
      FirstNormalTransactionId_def FrozenTransactionId_def)

section \<open>Properties of the GPU contexts\<close>

subsection \<open>The resource tracker\<close>

lemma untrack_scan_none:
  "\<forall>t \<in> set xs. \<not> (resclass t = RESTRACK_CLASS__GPUMEMORY \<and> devmem_ptr t = devptr)
   \<Longrightarrow> untrack_scan c devptr xs = None"
  by (induction xs) auto

lemma untrack_scan_append:
  "untrack_scan c devptr xs = None \<Longrightarrow>
   untrack_scan c devptr
     (xs @ [\<lparr>crc = c, resclass = RESTRACK_CLASS__GPUMEMORY, devmem_ptr = devptr,
              devmem_extra = extra\<rparr>]) = Some (extra, xs)"
  by (induction xs) (auto split: option.splits if_splits)

text \<open>
  Claim C9, as amended. Take a device pointer for which the context tracks no
  device-memory entry. After a successful \<^verbatim>\<open>trackGpuMem\<close> of the pointer with an
  extra value, \<^verbatim>\<open>untrackGpuMem\<close> of the pointer returns that extra value, leaves every
  list of the tracker as it was before the track, and writes no notice. And
  \<^verbatim>\<open>untrackGpuMem\<close> of the pointer while it is not tracked leaves the context
  unchanged, writes the notice and returns the null pointer.
\<close>

theorem track_untrack_roundtrip:
  assumes "\<not> gpumem_tracked gcontext devptr"
  shows "(fst (trackGpuMem env calloc_ok devptr extra (gcontext, tp)) \<longrightarrow>
            fst (untrackGpuMem env devptr
                  (snd (trackGpuMem env calloc_ok devptr extra (gcontext, tp)))) = extra
          \<and> restrack (fst (snd (untrackGpuMem env devptr
                  (snd (trackGpuMem env calloc_ok devptr extra (gcontext, tp))))))
              = restrack gcontext
          \<and> notices (snd (snd (untrackGpuMem env devptr
                  (snd (trackGpuMem env calloc_ok devptr extra (gcontext, tp))))))
              = notices tp)
     \<and> untrackGpuMem env devptr (gcontext, tp)
         = (0, gcontext,
            tp\<lparr>notices := notices tp @ [''Bug? GPU Device Memory was not tracked'']\<rparr>)"
proof -
  let ?c = "resource_tracker_hashval env RESTRACK_CLASS__GPUMEMORY devptr"
  let ?k = "unat ?c mod RESTRACK_HASHSIZE env"
  from assms have none: "untrack_scan ?c devptr (restrack gcontext ?k) = None"
    by (intro untrack_scan_none) (auto simp: gpumem_tracked_def)
  have miss: "untrackGpuMem env devptr (gcontext, tp)
         = (0, gcontext,
            tp\<lparr>notices := notices tp @ [''Bug? GPU Device Memory was not tracked'']\<rparr>)"
    by (simp add: untrackGpuMem_def Let_def none)
  have hit: "fst (untrackGpuMem env devptr
                  (snd (trackGpuMem env calloc_ok devptr extra (gcontext, tp)))) = extra
          \<and> restrack (fst (snd (untrackGpuMem env devptr
                  (snd (trackGpuMem env calloc_ok devptr extra (gcontext, tp))))))
              = restrack gcontext
          \<and> notices (snd (snd (untrackGpuMem env devptr
                  (snd (trackGpuMem env calloc_ok devptr extra (gcontext, tp))))))
              = notices tp"
    if "fst (trackGpuMem env calloc_ok devptr extra (gcontext, tp))"
  proof -
    obtain b tp' where ab: "resource_tracker_alloc calloc_ok tp = (b, tp')"
      by force
    with that have b by (cases b) (simp_all add: trackGpuMem_def)
    with ab have a: "resource_tracker_alloc calloc_ok tp = (True, tp')" by simp
    from ab have n: "notices tp' = notices tp"
      by (auto simp: resource_tracker_alloc_def split: if_splits)
    show ?thesis
      by (simp add: trackGpuMem_def untrackGpuMem_def a n Let_def
          untrack_scan_append[OF none])
  qed
  from miss hit show ?thesis by blast
qed

theorem track_untrack_roundtrip_witness:
  "\<not> gpumem_tracked demo_gcontext 4096
   \<and> fst (trackGpuMem demo_restrack_env True 4096 222 (demo_gcontext, demo_tracker_pool))
   \<and> fst (untrackGpuMem demo_restrack_env 4096
        (snd (trackGpuMem demo_restrack_env True 4096 222 (demo_gcontext, demo_tracker_pool))))
      = 222
   \<and> fst (untrackGpuMem demo_restrack_env 4096 (demo_gcontext, demo_tracker_pool)) = 0"
  using track_untrack_roundtrip[of demo_gcontext 4096 demo_restrack_env True 222 demo_tracker_pool]
  by (simp add: gpumem_tracked_def demo_gcontext_def demo_tracker_pool_def trackGpuMem_def
      resource_tracker_alloc_def Let_def)

text \<open>
  Without the condition the round trip fails: the tracker keeps every entry it is
  given, and the untrack takes the first one with the pointer. Track the pointer with
  111, track it again with 222, untrack it: the result is 111, and the entry that
  stays is the one with 222.
\<close>

theorem track_twice_counterexample:
  "fst (trackGpuMem demo_restrack_env True 4096 111 (demo_gcontext, demo_tracker_pool))
   \<and> fst (trackGpuMem demo_restrack_env True 4096 222
        (snd (trackGpuMem demo_restrack_env True 4096 111 (demo_gcontext, demo_tracker_pool))))
   \<and> fst (untrackGpuMem demo_restrack_env 4096
        (snd (trackGpuMem demo_restrack_env True 4096 222
          (snd (trackGpuMem demo_restrack_env True 4096 111
            (demo_gcontext, demo_tracker_pool)))))) = 111
   \<and> map devmem_extra (restrack (fst (snd (untrackGpuMem demo_restrack_env 4096
        (snd (trackGpuMem demo_restrack_env True 4096 222
          (snd (trackGpuMem demo_restrack_env True 4096 111
            (demo_gcontext, demo_tracker_pool)))))))) 7) = [222]"
  by (simp add: demo_gcontext_def demo_tracker_pool_def demo_restrack_env_def trackGpuMem_def
      untrackGpuMem_def resource_tracker_alloc_def Let_def RESTRACK_CLASS__GPUMEMORY_def)

subsection \<open>The pool of shared descriptors\<close>

lemma find_SomeD: "find P xs = Some x \<Longrightarrow> x \<in> set xs \<and> P x"
  by (induction xs) (auto split: if_splits)

lemma pool_invD:
  assumes "pool_inv srv n st"
  shows "distinct (free_list st)"
    and "refcnt (context_array st i)
            = (if backend (context_array st i) = None then 0 else 1)
              + (if server (context_array st i) = None then 0 else 1)"
    and "(i \<in> set (free_list st)) = (i < n \<and> refcnt (context_array st i) = 0)"
    and "n \<le> i \<Longrightarrow> backend (context_array st i) = None \<and> server (context_array st i) = None"
    and "g \<in> set (active_contexts st p) \<Longrightarrow>
            (if srv p then server (context_array st (shgcon g)) = Some p
             else backend (context_array st (shgcon g)) = Some p)"
    and "distinct (map shgcon (active_contexts st p))"
    and "distinct (map gc_addr (active_contexts st p))"
  using assms unfolding pool_inv_def by blast+

lemma pool_invI:
  assumes "distinct (free_list st)"
    and "\<And>i. refcnt (context_array st i)
            = (if backend (context_array st i) = None then 0 else 1)
              + (if server (context_array st i) = None then 0 else 1)"
    and "\<And>i. (i \<in> set (free_list st)) = (i < n \<and> refcnt (context_array st i) = 0)"
    and "\<And>i. n \<le> i \<Longrightarrow> backend (context_array st i) = None \<and> server (context_array st i) = None"
    and "\<And>p g. g \<in> set (active_contexts st p) \<Longrightarrow>
            (if srv p then server (context_array st (shgcon g)) = Some p
             else backend (context_array st (shgcon g)) = Some p)"
    and "\<And>p. distinct (map shgcon (active_contexts st p))"
    and "\<And>p. distinct (map gc_addr (active_contexts st p))"
  shows "pool_inv srv n st"
  using assms unfolding pool_inv_def by blast

lemma inv_startup: "pool_inv srv n (pgstrom_startup_gpu_context n)"
  by (rule pool_invI) (auto simp: pgstrom_startup_gpu_context_def)

text \<open>Changing the local count of contexts changes nothing the invariant looks at.\<close>

lemma inv_recount:
  assumes inv: "pool_inv srv n st"
    and sh: "\<And>g. shgcon (f g) = shgcon g" and ad: "\<And>g. gc_addr (f g) = gc_addr g"
  shows "pool_inv srv n
            (st\<lparr>active_contexts := (active_contexts st)(p := map f (active_contexts st p))\<rparr>)"
proof (rule pool_invI)
  fix q g
  assume "g \<in> set (active_contexts
      (st\<lparr>active_contexts := (active_contexts st)(p := map f (active_contexts st p))\<rparr>) q)"
  then obtain g0 where "g0 \<in> set (active_contexts st q)" "shgcon g = shgcon g0"
    by (cases "q = p") (auto simp: sh)
  with pool_invD(5)[OF inv, of g0 q]
  show "if srv q
     then server (context_array
         (st\<lparr>active_contexts := (active_contexts st)(p := map f (active_contexts st p))\<rparr>)
         (shgcon g)) = Some q
     else backend (context_array
         (st\<lparr>active_contexts := (active_contexts st)(p := map f (active_contexts st p))\<rparr>)
         (shgcon g)) = Some q"
    by simp
next
  fix q
  show "distinct (map shgcon (active_contexts
      (st\<lparr>active_contexts := (active_contexts st)(p := map f (active_contexts st p))\<rparr>) q))"
    using pool_invD(6)[OF inv, of q] pool_invD(6)[OF inv, of p]
    by (cases "q = p") (simp_all add: comp_def sh)
next
  fix q
  show "distinct (map gc_addr (active_contexts
      (st\<lparr>active_contexts := (active_contexts st)(p := map f (active_contexts st p))\<rparr>) q))"
    using pool_invD(7)[OF inv, of q] pool_invD(7)[OF inv, of p]
    by (cases "q = p") (simp_all add: comp_def ad)
qed (use pool_invD(1-4)[OF inv] in simp_all)

lemma inv_Get: "pool_inv srv n st \<Longrightarrow> pool_inv srv n (fst (GetGpuContext p a st))"
  by (auto simp: GetGpuContext_def split: option.splits intro!: inv_recount)

lemma free_slot_unused:
  assumes inv: "pool_inv srv n st" and fr: "i \<in> set (free_list st)"
    and g: "g \<in> set (active_contexts st q)"
  shows "shgcon g \<noteq> i"
proof
  assume "shgcon g = i"
  with pool_invD(5)[OF inv g]
  have "server (context_array st i) \<noteq> None \<or> backend (context_array st i) \<noteq> None"
    by (auto split: if_splits)
  moreover from fr pool_invD(3)[OF inv, of i] have "refcnt (context_array st i) = 0" by simp
  ultimately show False using pool_invD(2)[OF inv, of i] by (auto split: if_splits)
qed

lemma inv_new_context:
  assumes inv: "pool_inv srv n st" and fl: "free_list st = i # rest" and p: "\<not> srv p"
    and a: "gc_addr g \<notin> gc_addr ` set (active_contexts st p)" and gi: "shgcon g = i"
    and shg: "backend shg = Some p" "server shg = None" "refcnt shg = 1"
  shows "pool_inv srv n
      (st\<lparr>free_list := rest, context_array := (context_array st)(i := shg),
           active_contexts := (active_contexts st)(p := g # active_contexts st p)\<rparr>)"
proof (rule pool_invI)
  from fl have ifree: "i \<in> set (free_list st)" by simp
  from pool_invD(1)[OF inv] fl have d: "distinct rest" "i \<notin> set rest" by simp_all
  from ifree pool_invD(3)[OF inv, of i] have iN: "i < n" by simp
  have unused: "shgcon g' \<noteq> i" if "g' \<in> set (active_contexts st q)" for g' q
    using free_slot_unused[OF inv ifree that] .
  let ?st' = "st\<lparr>free_list := rest, context_array := (context_array st)(i := shg),
           active_contexts := (active_contexts st)(p := g # active_contexts st p)\<rparr>"
  show "distinct (free_list ?st')" using d by simp
  show "refcnt (context_array ?st' j)
            = (if backend (context_array ?st' j) = None then 0 else 1)
              + (if server (context_array ?st' j) = None then 0 else 1)" for j
    using pool_invD(2)[OF inv, of j] shg by simp
  show "(j \<in> set (free_list ?st')) = (j < n \<and> refcnt (context_array ?st' j) = 0)" for j
    using pool_invD(3)[OF inv, of j] d shg fl by (cases "j = i") auto
  show "n \<le> j \<Longrightarrow> backend (context_array ?st' j) = None \<and> server (context_array ?st' j) = None"
    for j using pool_invD(4)[OF inv, of j] iN by (cases "j = i") auto
  show "if srv q then server (context_array ?st' (shgcon g')) = Some q
        else backend (context_array ?st' (shgcon g')) = Some q"
    if "g' \<in> set (active_contexts ?st' q)" for q g'
  proof (cases "q = p \<and> g' = g")
    case True
    with p gi shg show ?thesis by simp
  next
    case False
    with that have m: "g' \<in> set (active_contexts st q)" by (auto split: if_splits)
    from unused[OF m] pool_invD(5)[OF inv m] show ?thesis by simp
  qed
  show "distinct (map shgcon (active_contexts ?st' q))" for q
  proof (cases "q = p")
    case True
    have "i \<notin> shgcon ` set (active_contexts st p)" using unused[of _ p] by auto
    with pool_invD(6)[OF inv, of p] True gi show ?thesis by simp
  next
    case False
    with pool_invD(6)[OF inv, of q] show ?thesis by simp
  qed
  show "distinct (map gc_addr (active_contexts ?st' q))" for q
    using pool_invD(7)[OF inv, of q] a by (cases "q = p") auto
qed

lemma inv_Alloc:
  assumes inv: "pool_inv srv n st"
  shows "pool_inv srv n (fst (AllocGpuContext srv p owner pwn with_connection calloc conn st))"
proof (cases "srv p")
  case True
  with inv show ?thesis by (simp add: AllocGpuContext_def)
next
  case bk: False
  let ?P = "\<lambda>g. gc_slot g = 0 \<and> resowner g = owner
                    \<and> (if with_connection then sockfd g \<noteq> PGINVALID_SOCKET
                        else sockfd g = PGINVALID_SOCKET)"
  show ?thesis
  proof (cases "find ?P (active_contexts st p)")
    case (Some g)
    with bk show ?thesis
      by (simp add: AllocGpuContext_def) (rule inv_recount[OF inv]; simp)
  next
    case None
    show ?thesis
    proof (cases calloc)
      case nocalloc: None
      with bk None inv show ?thesis by (simp add: AllocGpuContext_def)
    next
      case (Some a)
      show ?thesis
      proof (cases "a \<in> gc_addr ` set (active_contexts st p)")
        case True
        with bk None Some inv show ?thesis by (simp add: AllocGpuContext_def)
      next
        case fresh: False
        show ?thesis
        proof (cases "free_list st")
          case Nil
          with bk None Some fresh inv show ?thesis by (simp add: AllocGpuContext_def)
        next
          case (Cons i rest)
          have new: "pool_inv srv n
            (st\<lparr>free_list := rest,
                 context_array := (context_array st)
                   (i := (context_array st i)
                       \<lparr>server := None, backend := Some p, ParallelWorkerNumber := pwn,
                        in_termination := 0, refcnt := 1, dma_buffer_list := [],
                        num_async_tasks := 0\<rparr>),
                 active_contexts := (active_contexts st)(p := g # active_contexts st p)\<rparr>)"
            if "gc_addr g = a" "shgcon g = i" for g
            using that fresh by (intro inv_new_context[OF inv Cons bk]) simp_all
          from bk None Some fresh Cons show ?thesis
            by (auto simp: AllocGpuContext_def Let_def split: option.splits intro!: new)
        qed
      qed
    qed
  qed
qed

lemma inv_Attach:
  assumes inv: "pool_inv srv n st"
  shows "pool_inv srv n (fst (AttachGpuContext srv p owner dindex fd i calloc epoll_ok st))"
proof (cases "srv p \<and> (\<exists>a. calloc = Some a \<and> a \<notin> gc_addr ` set (active_contexts st p))
      \<and> epoll_ok \<and> 0 < refcnt (context_array st i) \<and> backend (context_array st i) \<noteq> None
      \<and> server (context_array st i) = None \<and> num_async_tasks (context_array st i) = 0")
  case False
  with inv show ?thesis
    by (auto simp: AttachGpuContext_def Let_def split: option.splits)
next
  case True
  then obtain a where sp: "srv p" and ca: "calloc = Some a"
    and fresh: "a \<notin> gc_addr ` set (active_contexts st p)" and ep: epoll_ok
    and rc: "0 < refcnt (context_array st i)" and bk: "backend (context_array st i) \<noteq> None"
    and sv: "server (context_array st i) = None"
    and na: "num_async_tasks (context_array st i) = 0"
    by blast
  let ?g = "\<lparr>gc_addr = a, gc_slot = fd mod ACTIVE_GPU_CONTEXT_NSLOTS,
                      gpuserv_id = dindex, sockfd = int fd, resowner = owner, shgcon = i,
                      gc_refcnt = 1, is_unlinked = 0, restrack = (\<lambda>k. [])\<rparr>"
  let ?st' = "st\<lparr>context_array := (context_array st)
                         (i := (context_array st i)\<lparr>refcnt := refcnt (context_array st i) + 1,
                                server := Some p\<rparr>),
                  active_contexts := (active_contexts st)(p := ?g # active_contexts st p)\<rparr>"
  have eq: "fst (AttachGpuContext srv p owner dindex fd i calloc epoll_ok st) = ?st'"
    using sp ca fresh ep rc bk sv na by (auto simp: AttachGpuContext_def Let_def)
  have notfree: "i \<notin> set (free_list st)"
    using pool_invD(3)[OF inv, of i] rc by simp
  have iN: "i < n" using pool_invD(4)[OF inv, of i] bk by (cases "i < n") auto
  have noserver: "shgcon g' \<noteq> i" if "g' \<in> set (active_contexts st q)" "srv q" for g' q
    using pool_invD(5)[OF inv that(1)] that(2) sv by auto
  have "pool_inv srv n ?st'"
  proof (rule pool_invI)
    show "distinct (free_list ?st')" using pool_invD(1)[OF inv] by simp
    show "refcnt (context_array ?st' j)
            = (if backend (context_array ?st' j) = None then 0 else 1)
              + (if server (context_array ?st' j) = None then 0 else 1)" for j
      using pool_invD(2)[OF inv, of j] sv bk by (cases "j = i") auto
    show "(j \<in> set (free_list ?st')) = (j < n \<and> refcnt (context_array ?st' j) = 0)" for j
      using pool_invD(3)[OF inv, of j] rc by (cases "j = i") auto
    show "n \<le> j \<Longrightarrow> backend (context_array ?st' j) = None \<and> server (context_array ?st' j) = None"
      for j using pool_invD(4)[OF inv, of j] iN by (cases "j = i") auto
    show "if srv q then server (context_array ?st' (shgcon g')) = Some q
        else backend (context_array ?st' (shgcon g')) = Some q"
      if "g' \<in> set (active_contexts ?st' q)" for q g'
    proof (cases "q = p \<and> g' = ?g")
      case True
      with sp show ?thesis by simp
    next
      case False
      with that have m: "g' \<in> set (active_contexts st q)" by (auto split: if_splits)
      show ?thesis
      proof (cases "srv q")
        case True
        with noserver[OF m] pool_invD(5)[OF inv m] show ?thesis by simp
      next
        case False
        with pool_invD(5)[OF inv m] show ?thesis by (cases "shgcon g' = i") auto
      qed
    qed
    show "distinct (map shgcon (active_contexts ?st' q))" for q
    proof (cases "q = p")
      case True
      have "i \<notin> shgcon ` set (active_contexts st p)" using noserver[of _ p] sp by auto
      with pool_invD(6)[OF inv, of p] True show ?thesis by simp
    next
      case False
      with pool_invD(6)[OF inv, of q] show ?thesis by simp
    qed
    show "distinct (map gc_addr (active_contexts ?st' q))" for q
      using pool_invD(7)[OF inv, of q] fresh by (cases "q = p") auto
  qed
  with eq show ?thesis by simp
qed

lemma PutShared_ok:
  assumes inv: "pool_inv srv n st"
    and side: "if srv p then server (context_array st i) = Some p
               else backend (context_array st i) = Some p"
    and none: "\<forall>g \<in> set (active_contexts st p). shgcon g \<noteq> i"
  shows "snd (PutSharedGpuContext srv p i st) = Inr ()
       \<and> pool_inv srv n (fst (PutSharedGpuContext srv p i st))"
proof -
  let ?shg = "context_array st i"
  let ?shg1 = "if srv p then ?shg\<lparr>server := None\<rparr> else ?shg\<lparr>backend := None\<rparr>"
  let ?shg2 = "?shg1\<lparr>refcnt := refcnt ?shg1 - 1\<rparr>"
  have pos: "0 < refcnt ?shg"
    using pool_invD(2)[OF inv, of i] side by (auto split: if_splits)
  have iN: "i < n" using pool_invD(4)[OF inv, of i] side by (cases "i < n") (auto split: if_splits)
  have notfree: "i \<notin> set (free_list st)" using pool_invD(3)[OF inv, of i] pos by simp
  have rc2: "refcnt ?shg2 = (if backend ?shg2 = None then 0 else 1)
                           + (if server ?shg2 = None then 0 else 1)"
    using pool_invD(2)[OF inv, of i] side by (auto split: if_splits)
  have others: "if srv q then server ?shg2 = Some q else backend ?shg2 = Some q"
    if "g \<in> set (active_contexts st q)" "shgcon g = i" for q g
  proof -
    from that none have qp: "q \<noteq> p" by auto
    from pool_invD(5)[OF inv that(1)] that(2) side qp show ?thesis
      by (auto split: if_splits)
  qed
  show ?thesis
  proof (cases "0 < refcnt ?shg2")
    case True
    let ?st' = "st\<lparr>context_array := (context_array st)(i := ?shg2)\<rparr>"
    from pos True have eq: "PutSharedGpuContext srv p i st = (?st', Inr ())"
      by (simp add: PutSharedGpuContext_def Let_def)
    have "pool_inv srv n ?st'"
    proof (rule pool_invI)
      show "distinct (free_list ?st')" using pool_invD(1)[OF inv] by simp
      show "refcnt (context_array ?st' j)
            = (if backend (context_array ?st' j) = None then 0 else 1)
              + (if server (context_array ?st' j) = None then 0 else 1)" for j
        using pool_invD(2)[OF inv, of j] rc2 by (cases "j = i") simp_all
      show "(j \<in> set (free_list ?st')) = (j < n \<and> refcnt (context_array ?st' j) = 0)" for j
        using pool_invD(3)[OF inv, of j] True notfree by (cases "j = i") simp_all
      show "n \<le> j \<Longrightarrow> backend (context_array ?st' j) = None \<and> server (context_array ?st' j) = None"
        for j using pool_invD(4)[OF inv, of j] iN by (cases "j = i") simp_all
      show "if srv q then server (context_array ?st' (shgcon g)) = Some q
        else backend (context_array ?st' (shgcon g)) = Some q"
        if "g \<in> set (active_contexts ?st' q)" for q g
      proof (cases "shgcon g = i")
        case True
        with that others[of g q] show ?thesis by simp
      next
        case False
        with that pool_invD(5)[OF inv, of g q] show ?thesis by simp
      qed
      show "distinct (map shgcon (active_contexts ?st' q))" for q
        using pool_invD(6)[OF inv, of q] by simp
      show "distinct (map gc_addr (active_contexts ?st' q))" for q
        using pool_invD(7)[OF inv, of q] by simp
    qed
    with eq show ?thesis by simp
  next
    case False
    with rc2 have z: "refcnt ?shg2 = 0" "server ?shg2 = None" "backend ?shg2 = None"
      by (auto split: if_splits)
    let ?st' = "st\<lparr>context_array := (context_array st)(i := ?shg2\<lparr>dma_buffer_list := []\<rparr>),
                    free_list := i # free_list st\<rparr>"
    from pos False z notfree have eq: "PutSharedGpuContext srv p i st = (?st', Inr ())"
      by (simp add: PutSharedGpuContext_def Let_def)
    have nobody: "shgcon g \<noteq> i" if "g \<in> set (active_contexts st q)" for q g
      using others[OF that] z by (auto split: if_splits)
    have "pool_inv srv n ?st'"
    proof (rule pool_invI)
      show "distinct (free_list ?st')" using pool_invD(1)[OF inv] notfree by simp
      show "refcnt (context_array ?st' j)
            = (if backend (context_array ?st' j) = None then 0 else 1)
              + (if server (context_array ?st' j) = None then 0 else 1)" for j
        using pool_invD(2)[OF inv, of j] z by (cases "j = i") simp_all
      show "(j \<in> set (free_list ?st')) = (j < n \<and> refcnt (context_array ?st' j) = 0)" for j
        using pool_invD(3)[OF inv, of j] z iN by (cases "j = i") simp_all
      show "n \<le> j \<Longrightarrow> backend (context_array ?st' j) = None \<and> server (context_array ?st' j) = None"
        for j using pool_invD(4)[OF inv, of j] z by (cases "j = i") simp_all
      show "if srv q then server (context_array ?st' (shgcon g)) = Some q
        else backend (context_array ?st' (shgcon g)) = Some q"
        if "g \<in> set (active_contexts ?st' q)" for q g
        using that nobody[of g q] pool_invD(5)[OF inv, of g q] by simp
      show "distinct (map shgcon (active_contexts ?st' q))" for q
        using pool_invD(6)[OF inv, of q] by simp
      show "distinct (map gc_addr (active_contexts ?st' q))" for q
        using pool_invD(7)[OF inv, of q] by simp
    qed
    with eq show ?thesis by simp
  qed
qed

lemma inv_unlink:
  assumes inv: "pool_inv srv n st"
  shows "pool_inv srv n
     (st\<lparr>active_contexts := (active_contexts st)(p := filter P (active_contexts st p))\<rparr>)"
proof (rule pool_invI)
  let ?st' = "st\<lparr>active_contexts := (active_contexts st)(p := filter P (active_contexts st p))\<rparr>"
  show "if srv q then server (context_array ?st' (shgcon g)) = Some q
        else backend (context_array ?st' (shgcon g)) = Some q"
    if "g \<in> set (active_contexts ?st' q)" for q g
  proof -
    from that have "g \<in> set (active_contexts st q)" by (cases "q = p") auto
    from pool_invD(5)[OF inv this] show ?thesis by simp
  qed
  show "distinct (map shgcon (active_contexts ?st' q))" for q
    using pool_invD(6)[OF inv, of q] by (cases "q = p") (simp_all add: distinct_map_filter)
  show "distinct (map gc_addr (active_contexts ?st' q))" for q
    using pool_invD(7)[OF inv, of q] by (cases "q = p") (simp_all add: distinct_map_filter)
qed (use pool_invD(1-4)[OF inv] in simp_all)

lemma Put_ok:
  assumes inv: "pool_inv srv n st" and live: "a \<in> gc_addr ` set (active_contexts st p)"
  shows "snd (PutGpuContext srv p a st) = Inr ()
       \<and> pool_inv srv n (fst (PutGpuContext srv p a st))"
proof -
  from live have "\<exists>g \<in> set (active_contexts st p). gc_addr g = a" by auto
  then obtain g where f: "find (\<lambda>g. gc_addr g = a) (active_contexts st p) = Some g"
    by (cases "find (\<lambda>g. gc_addr g = a) (active_contexts st p)") (auto simp: find_None_iff)
  from find_SomeD[OF f] have g: "g \<in> set (active_contexts st p)" "gc_addr g = a" by simp_all
  show ?thesis
  proof (cases "gc_refcnt g - 1 = 0")
    case False
    with f show ?thesis
      by (simp add: PutGpuContext_def Let_def) (rule inv_recount[OF inv]; simp)
  next
    case True
    let ?st1 = "st\<lparr>active_contexts := (active_contexts st)
                   (p := filter (\<lambda>g. gc_addr g \<noteq> a) (active_contexts st p))\<rparr>"
    from f True have eq: "PutGpuContext srv p a st = PutSharedGpuContext srv p (shgcon g) ?st1"
      by (simp add: PutGpuContext_def Let_def)
    have inv1: "pool_inv srv n ?st1" by (rule inv_unlink[OF inv])
    have side: "if srv p then server (context_array ?st1 (shgcon g)) = Some p
               else backend (context_array ?st1 (shgcon g)) = Some p"
      using pool_invD(5)[OF inv g(1)] by simp
    have none: "\<forall>g' \<in> set (active_contexts ?st1 p). shgcon g' \<noteq> shgcon g"
    proof
      fix g' assume "g' \<in> set (active_contexts ?st1 p)"
      then have m: "g' \<in> set (active_contexts st p)" and ne: "gc_addr g' \<noteq> a" by simp_all
      with g have "g' \<noteq> g" by auto
      with pool_invD(6)[OF inv, of p] m g(1) show "shgcon g' \<noteq> shgcon g"
        by (auto simp: distinct_map inj_on_def)
    qed
    from PutShared_ok[OF inv1 side none] eq show ?thesis by simp
  qed
qed

lemma inv_Put: "pool_inv srv n st \<Longrightarrow> pool_inv srv n (fst (PutGpuContext srv p a st))"
proof (cases "a \<in> gc_addr ` set (active_contexts st p)")
  case True
  assume "pool_inv srv n st"
  from Put_ok[OF this True] show ?thesis by simp
next
  case False
  assume inv: "pool_inv srv n st"
  from False have "find (\<lambda>g. gc_addr g = a) (active_contexts st p) = None"
    by (auto simp: find_None_iff)
  with inv show ?thesis by (simp add: PutGpuContext_def)
qed

lemma inv_step: "pool_inv srv n st \<Longrightarrow> pool_inv srv n (fst (pool_step srv st x))"
proof (cases x)
  case (Alloc p owner pwn wc calloc conn)
  assume "pool_inv srv n st"
  from inv_Alloc[OF this, of p owner pwn wc calloc conn] Alloc show ?thesis
    by (simp add: split_beta split: sum.split)
next
  case (Attach p owner dindex fd i calloc ep)
  assume "pool_inv srv n st"
  from inv_Attach[OF this, of p owner dindex fd i calloc ep] Attach show ?thesis
    by (simp add: split_beta split: sum.split)
next
  case (Get p a)
  assume "pool_inv srv n st"
  from inv_Get[OF this, of p a] Get show ?thesis
    by (simp add: split_beta split: sum.split)
next
  case (Put p a)
  assume "pool_inv srv n st"
  from inv_Put[OF this, of p a] Put show ?thesis
    by (simp add: split_beta split: sum.split)
qed

lemma inv_run:
  "pool_inv srv n st \<Longrightarrow> pool_run srv st xs = Some st' \<Longrightarrow> pool_inv srv n st'"
proof (induction xs arbitrary: st)
  case Nil
  then show ?case by simp
next
  case (Cons x xs)
  from Cons.prems(1) have "pool_inv srv n (fst (pool_step srv st x))" by (rule inv_step)
  with Cons.prems(2) Cons.IH[of "fst (pool_step srv st x)"] show ?case
    by (auto simp: split_beta split: option.splits if_splits)
qed

lemma live_le:
  assumes inv: "pool_inv srv n st"
  shows "card {i. 0 < refcnt (context_array st i)} \<le> n"
proof -
  have "{i. 0 < refcnt (context_array st i)} \<subseteq> {..<n}"
  proof
    fix i assume "i \<in> {i. 0 < refcnt (context_array st i)}"
    then have "0 < refcnt (context_array st i)" by simp
    with pool_invD(2)[OF inv, of i] pool_invD(4)[OF inv, of i] show "i \<in> {..<n}"
      by (cases "i < n") (auto split: if_splits)
  qed
  then have "card {i. 0 < refcnt (context_array st i)} \<le> card {..<n}"
    by (intro card_mono) simp_all
  then show ?thesis by simp
qed

text \<open>
  Claim C8. Start from the pool of \<open>n\<close> descriptors as the start-up hook builds it
  and run any sequence of acquire, attach, get and put operations, by any processes,
  that does not stop in a fatal error, a failed assertion or a misuse of a context
  pointer. In the state reached: no shared count is negative (nor above two, one for
  each side, so the width of the C integer does not matter); a put of any live
  context succeeds, so the assertion that the shared count is positive before the
  decrement holds, and the descriptor of every live context has a positive count; at
  most \<open>n\<close> descriptors have a positive count; and a descriptor is in the free list
  exactly when it is one of the \<open>n\<close> and its count is zero.
\<close>

theorem pool_refcount_invariant:
  assumes "pool_run srv (pgstrom_startup_gpu_context n) ops = Some st"
  shows "(\<forall>i. 0 \<le> refcnt (context_array st i) \<and> refcnt (context_array st i) \<le> 2)
    \<and> (\<forall>p a. a \<in> gc_addr ` set (active_contexts st p)
          \<longrightarrow> snd (PutGpuContext srv p a st) = Inr ())
    \<and> (\<forall>p. \<forall>g \<in> set (active_contexts st p). 0 < refcnt (context_array st (shgcon g)))
    \<and> card {i. 0 < refcnt (context_array st i)} \<le> n
    \<and> (\<forall>i. (i \<in> set (free_list st)) = (i < n \<and> refcnt (context_array st i) = 0))"
proof -
  have inv: "pool_inv srv n st"
    using inv_startup assms by (rule inv_run)
  have a: "0 \<le> refcnt (context_array st i) \<and> refcnt (context_array st i) \<le> 2" for i
    using pool_invD(2)[OF inv, of i] by simp
  have b: "snd (PutGpuContext srv p a st) = Inr ()"
    if "a \<in> gc_addr ` set (active_contexts st p)" for p a
    using Put_ok[OF inv that] by simp
  have c: "0 < refcnt (context_array st (shgcon g))" if "g \<in> set (active_contexts st p)" for p g
    using pool_invD(5)[OF inv that] pool_invD(2)[OF inv, of "shgcon g"]
    by (auto split: if_splits)
  from a b c live_le[OF inv] pool_invD(3)[OF inv] show ?thesis by blast
qed

theorem pool_refcount_invariant_witness:
  "pool_run demo_srv (pgstrom_startup_gpu_context 2) demo_pool_ops = Some demo_pool_state
   \<and> free_list demo_pool_state = [1]
   \<and> refcnt (context_array demo_pool_state 0) = 2
   \<and> card {i. 0 < refcnt (context_array demo_pool_state i)} \<le> 2
   \<and> snd (PutGpuContext demo_srv 10 100 demo_pool_state) = Inr ()
   \<and> pool_run demo_srv demo_pool_state [Put 20 200, Put 10 100, Put 10 100] = None"
proof -
  have run: "pool_run demo_srv (pgstrom_startup_gpu_context 2) demo_pool_ops
             = Some demo_pool_state"
    by (simp add: demo_pool_state_def demo_pool_ops_def demo_srv_def
        pgstrom_startup_gpu_context_def AllocGpuContext_def AttachGpuContext_def
        PGINVALID_SOCKET_def Let_def upt_rec)
  have st: "free_list demo_pool_state = [1]" "refcnt (context_array demo_pool_state 0) = 2"
    "active_contexts demo_pool_state 10 =
        [\<lparr>gc_addr = 100, gc_slot = 0, gpuserv_id = - 1, sockfd = - 1, resowner = 7,
          shgcon = 0, gc_refcnt = 1, is_unlinked = 0, restrack = (\<lambda>k. [])\<rparr>]"
    "active_contexts demo_pool_state 20 =
        [\<lparr>gc_addr = 200, gc_slot = 5, gpuserv_id = 0, sockfd = 5, resowner = 8,
          shgcon = 0, gc_refcnt = 1, is_unlinked = 0, restrack = (\<lambda>k. [])\<rparr>]"
    by (simp_all add: demo_pool_state_def demo_pool_ops_def demo_srv_def
        pgstrom_startup_gpu_context_def AllocGpuContext_def AttachGpuContext_def
        PGINVALID_SOCKET_def ACTIVE_GPU_CONTEXT_NSLOTS_def Let_def upt_rec)
  have twice: "pool_run demo_srv demo_pool_state [Put 20 200, Put 10 100, Put 10 100] = None"
    by (simp add: st PutGpuContext_def PutSharedGpuContext_def demo_srv_def Let_def)
  from pool_refcount_invariant[OF run] st twice run show ?thesis
    by simp
qed


end
